theory Spec2Isabelle
  imports Complex_Main "HOL-Library.Word"
begin

section \<open>Machine integers and casts\<close>

text \<open>
  The firmware stores coordinates, sizes and angles in \<open>int16_t\<close> and clock readings in
  \<open>uint32_t\<close>. They are words here. C++ promotes \<open>int16_t\<close> operands to \<open>int\<close> before
  it computes, and truncates when the result is stored back: an expression is therefore
  computed on \<open>sint\<close> values in \<open>int\<close> and stored with \<open>i16\<close>. \<open>float\<close> values are
  modelled as the real numbers they stand for (no NaN, no infinity); square roots and
  trigonometric functions are exact, and the arithmetic of the slider's value rounds
  after every operation.
\<close>

type_synonym int16_t = "16 word"
type_synonym uint32_t = "32 word"

definition i16 :: "int \<Rightarrow> int16_t" where
  "i16 k = word_of_int k"

text \<open>
  What a stored value reads back as: itself when it fits, and any \<open>int16_t\<close> lies
  within the 16-bit range.
\<close>

lemma i16_sint [simp]: "i16 (sint w) = w"
  by (simp add: i16_def)

lemma sint_i16 [simp]: "- 32768 \<le> k \<Longrightarrow> k < 32768 \<Longrightarrow> sint (i16 k) = k"
  by (simp add: i16_def sint_sbintrunc' signed_take_bit_int_eq_self_iff)

lemma sint_ge16: "- 32768 \<le> sint (w :: int16_t)"
  using sint_ge [of w] by simp

lemma sint_lt16: "sint (w :: int16_t) < 32768"
  using sint_lt [of w] by simp

text \<open>The cast \<open>(int16_t) f\<close> of a float: the fraction is dropped (towards zero).\<close>

definition trunc :: "real \<Rightarrow> int" where
  "trunc r = (if 0 \<le> r then \<lfloor>r\<rfloor> else \<lceil>r\<rceil>)"

text \<open>C++ integer division truncates towards zero.\<close>

definition cdiv :: "int \<Rightarrow> int \<Rightarrow> int" where
  "cdiv a b = (if (a < 0) = (b < 0) then \<bar>a\<bar> div \<bar>b\<bar> else - (\<bar>a\<bar> div \<bar>b\<bar>))"

text \<open>Config.h\<close>

definition SCREEN_WIDTH :: int where "SCREEN_WIDTH = 360"
definition SCREEN_HEIGHT :: int where "SCREEN_HEIGHT = 360"

section \<open>NavigationController\<close>

text \<open>
  A \<open>PageView*\<close> is a value of the page type \<open>'p\<close>; \<open>nullptr\<close> is \<open>None\<close>. The virtual
  calls the controller makes on a page (\<open>onEnter\<close>, \<open>onExit\<close>) and its \<open>delete\<close> are
  recorded, in order, in \<open>m_calls\<close>; pages are otherwise opaque. A guard is its two virtual
  methods; \<open>canActivate\<close> is given the path of the route it is asked about. A \<open>Route*\<close>
  points into \<open>m_routes\<close> and is the index of the route there. The \<open>userData\<close> field of a
  route is never read and is left out.
\<close>

record RouteGuard =
  canActivate :: "string \<Rightarrow> bool"
  getRedirectPath :: string

record 'p Route =
  path :: string
  name :: string
  createView :: "unit \<Rightarrow> 'p option"
  guard :: "RouteGuard option"
  requiresAuth :: bool

datatype 'p PageCall = OnEnter 'p | OnExit 'p | Delete 'p

record 'p NavigationController =
  m_stack :: "'p list"
  m_routes :: "'p Route list"
  m_currentRoute :: "nat option"
  m_rootRoute :: "nat option"
  m_calls :: "'p PageCall list"

fun findRoute_from :: "'p Route list \<Rightarrow> string \<Rightarrow> nat \<Rightarrow> nat option" where
  "findRoute_from [] p i = None"
| "findRoute_from (r # rs) p i = (if path r = p then Some i else findRoute_from rs p (Suc i))"

definition findRoute :: "'p NavigationController \<Rightarrow> string \<Rightarrow> nat option" where
  "findRoute nc p = findRoute_from (m_routes nc) p 0"

definition canActivateRoute :: "'p Route \<Rightarrow> bool" where
  "canActivateRoute route =
     (case guard route of
        Some g \<Rightarrow> canActivate g (path route)
      | None \<Rightarrow> (if requiresAuth route then True else True))"

definition cleanupPage :: "'p NavigationController \<Rightarrow> 'p \<Rightarrow> 'p NavigationController" where
  "cleanupPage nc page = nc\<lparr>m_calls := m_calls nc @ [Delete page]\<rparr>"

text \<open>The loop \<open>while (!m_stack.empty())\<close> of \<open>navigateTo\<close>: pop the back, clean it up.\<close>

function clearStack_loop :: "'p NavigationController \<Rightarrow> 'p NavigationController" where
  "clearStack_loop nc =
     (if m_stack nc \<noteq> []
      then clearStack_loop (cleanupPage (nc\<lparr>m_stack := butlast (m_stack nc)\<rparr>) (last (m_stack nc)))
      else nc)"
  by pat_completeness auto
termination
  by (relation "measure (\<lambda>nc. length (m_stack nc))") (auto simp: cleanupPage_def)

definition exitCurrent :: "'p NavigationController \<Rightarrow> 'p NavigationController" where
  "exitCurrent nc =
     (if m_stack nc \<noteq> [] then nc\<lparr>m_calls := m_calls nc @ [OnExit (last (m_stack nc))]\<rparr> else nc)"

text \<open>
  \<open>navigateTo\<close> calls itself on the guard's redirect path, and two guarded routes that
  redirect to each other never return: the result is an option, \<open>None\<close> for a call that
  does not return. The path argument is a \<open>const char*\<close>, \<open>None\<close> when null.
\<close>

partial_function (option) navigateTo ::
  "'p NavigationController \<Rightarrow> string option \<Rightarrow> bool \<Rightarrow> (bool \<times> 'p NavigationController) option"
where
  "navigateTo nc pathp clearStack =
     (case pathp of
        None \<Rightarrow> Some (False, nc)
      | Some p \<Rightarrow>
         (case findRoute nc p of
            None \<Rightarrow> Some (False, nc)
          | Some i \<Rightarrow>
             (let route = m_routes nc ! i in
              if \<not> canActivateRoute route then
                (case guard route of
                   Some g \<Rightarrow>
                     (if getRedirectPath g \<noteq> p
                      then navigateTo nc (Some (getRedirectPath g)) False
                      else Some (False, nc))
                 | None \<Rightarrow> Some (False, nc))
              else
                (let nc1 = (if clearStack then clearStack_loop nc else nc);
                     nc2 = exitCurrent nc1
                 in case createView route () of
                      None \<Rightarrow> Some (False, nc2)
                    | Some newPage \<Rightarrow>
                        Some (True, nc2\<lparr>m_stack := m_stack nc2 @ [newPage],
                                        m_currentRoute := Some i,
                                        m_calls := m_calls nc2 @ [OnEnter newPage]\<rparr>)))))"

definition canGoBack :: "'p NavigationController \<Rightarrow> bool" where
  "canGoBack nc = (length (m_stack nc) > 1)"

definition getStackDepth :: "'p NavigationController \<Rightarrow> nat" where
  "getStackDepth nc = length (m_stack nc)"

definition getCurrentPage :: "'p NavigationController \<Rightarrow> 'p option" where
  "getCurrentPage nc = (if m_stack nc = [] then None else Some (last (m_stack nc)))"

definition getCurrentRoute :: "'p NavigationController \<Rightarrow> nat option" where
  "getCurrentRoute nc = m_currentRoute nc"

definition goBack :: "'p NavigationController \<Rightarrow> bool \<times> 'p NavigationController" where
  "goBack nc =
     (if \<not> canGoBack nc then (False, nc)
      else
        (let currentPage = last (m_stack nc);
             nc1 = nc\<lparr>m_calls := m_calls nc @ [OnExit currentPage]\<rparr>;
             nc2 = nc1\<lparr>m_stack := butlast (m_stack nc1)\<rparr>;
             nc3 = cleanupPage nc2 currentPage;
             nc4 = (if m_stack nc3 \<noteq> []
                    then nc3\<lparr>m_calls := m_calls nc3 @ [OnEnter (last (m_stack nc3))],
                             m_currentRoute := None\<rparr>
                    else nc3)
         in (True, nc4)))"

text \<open>A small router for the examples: a home page and a settings page, pages are numbers.\<close>

definition demo_routes :: "nat Route list" where
  "demo_routes =
     [\<lparr>path = ''/'', name = ''Home'', createView = (\<lambda>_. Some 1), guard = None,
       requiresAuth = False\<rparr>,
      \<lparr>path = ''/settings'', name = ''Settings'', createView = (\<lambda>_. Some 2), guard = None,
       requiresAuth = True\<rparr>]"

definition demo_nav :: "nat list \<Rightarrow> nat NavigationController" where
  "demo_nav st = \<lparr>m_stack = st, m_routes = demo_routes, m_currentRoute = Some 0,
                  m_rootRoute = Some 0, m_calls = []\<rparr>"

section \<open>TouchController\<close>

text \<open>
  One call of \<open>update\<close> reads the touch driver once and the clock twice: \<open>millis()\<close>
  for the timestamp of the sample, and \<open>millis()\<close> again in the branch it takes. A frame
  is what these reads return: the raw data, the driver's return value and the two clock
  readings. The fields \<open>x\<close>, \<open>y\<close>, \<open>touched\<close>, \<open>gesture\<close> of \<open>TouchData\<close> are
  \<open>raw_x\<close>, ...; \<open>x\<close> and \<open>y\<close> of \<open>TouchPoint\<close> are \<open>tp_x\<close> and \<open>tp_y\<close>. \<open>abs\<close> is
  taken of the promoted \<open>int\<close>; durations are unsigned and wrap.
\<close>

datatype TouchEvent =
  NONE | TAP | DOUBLE_TAP | LONG_PRESS | DRAG_START | DRAG_MOVE | DRAG_END
  | SWIPE_UP | SWIPE_DOWN | SWIPE_LEFT | SWIPE_RIGHT

record TouchData =
  raw_x :: int16_t
  raw_y :: int16_t
  raw_touched :: bool
  raw_gesture :: "8 word"

record TouchPoint =
  tp_x :: int16_t
  tp_y :: int16_t
  pressed :: bool
  timestamp :: uint32_t

record Frame =
  rawData :: TouchData
  touched :: bool
  millis1 :: uint32_t
  millis2 :: uint32_t

record TouchController =
  m_currentTouch :: TouchPoint
  m_lastTouch :: TouchPoint
  m_touchStart :: TouchPoint
  m_lastEvent :: TouchEvent
  m_touchStartTime :: uint32_t
  m_isDragging :: bool

definition TAP_MAX_DURATION :: uint32_t where "TAP_MAX_DURATION = 300"
definition LONG_PRESS_DURATION :: uint32_t where "LONG_PRESS_DURATION = 800"
definition DRAG_THRESHOLD :: int where "DRAG_THRESHOLD = 10"

definition TouchController_new :: TouchController where
  "TouchController_new =
     \<lparr>m_currentTouch = \<lparr>tp_x = 0, tp_y = 0, pressed = False, timestamp = 0\<rparr>,
      m_lastTouch = \<lparr>tp_x = 0, tp_y = 0, pressed = False, timestamp = 0\<rparr>,
      m_touchStart = \<lparr>tp_x = 0, tp_y = 0, pressed = False, timestamp = 0\<rparr>,
      m_lastEvent = NONE, m_touchStartTime = 0, m_isDragging = False\<rparr>"

definition detectGestures :: "TouchController \<Rightarrow> uint32_t \<Rightarrow> TouchController" where
  "detectGestures tc now =
     (let deltaX = i16 (sint (tp_x (m_currentTouch tc)) - sint (tp_x (m_touchStart tc)));
          deltaY = i16 (sint (tp_y (m_currentTouch tc)) - sint (tp_y (m_touchStart tc)));
          duration = now - m_touchStartTime tc
      in if \<not> m_isDragging tc \<and> duration > LONG_PRESS_DURATION
            \<and> \<bar>sint deltaX\<bar> < DRAG_THRESHOLD \<and> \<bar>sint deltaY\<bar> < DRAG_THRESHOLD
         then tc\<lparr>m_lastEvent := LONG_PRESS\<rparr>
         else if \<bar>sint deltaX\<bar> > DRAG_THRESHOLD \<or> \<bar>sint deltaY\<bar> > DRAG_THRESHOLD
         then (if \<not> m_isDragging tc
               then tc\<lparr>m_lastEvent := DRAG_START, m_isDragging := True\<rparr>
               else tc\<lparr>m_lastEvent := DRAG_MOVE\<rparr>)
         else tc)"

definition resetGestureState :: "TouchController \<Rightarrow> TouchController" where
  "resetGestureState tc = tc\<lparr>m_isDragging := False, m_touchStartTime := 0\<rparr>"

definition update :: "TouchController \<Rightarrow> Frame \<Rightarrow> TouchController" where
  "update tc0 f =
     (let tc1 = tc0\<lparr>m_lastEvent := NONE, m_lastTouch := m_currentTouch tc0\<rparr>;
          tc = tc1\<lparr>m_currentTouch := \<lparr>tp_x = raw_x (rawData f), tp_y = raw_y (rawData f),
                                       pressed = touched f, timestamp = millis1 f\<rparr>\<rparr>
      in if touched f \<and> \<not> pressed (m_lastTouch tc)
         then tc\<lparr>m_touchStart := m_currentTouch tc, m_touchStartTime := millis2 f,
                 m_isDragging := False\<rparr>
         else if touched f \<and> pressed (m_lastTouch tc)
         then detectGestures tc (millis2 f)
         else if \<not> touched f \<and> pressed (m_lastTouch tc)
         then (let duration = millis2 f - m_touchStartTime tc;
                   tc' = (if m_isDragging tc then tc\<lparr>m_lastEvent := DRAG_END\<rparr>
                          else if duration < TAP_MAX_DURATION then tc\<lparr>m_lastEvent := TAP\<rparr>
                          else tc)
               in resetGestureState tc')
         else tc)"

definition getLastEvent :: "TouchController \<Rightarrow> TouchEvent" where
  "getLastEvent tc = m_lastEvent tc"

text \<open>The main loop: one \<open>update\<close> per frame, the event read after each.\<close>

fun events :: "TouchController \<Rightarrow> Frame list \<Rightarrow> TouchEvent list" where
  "events tc [] = []"
| "events tc (f # fs) = getLastEvent (update tc f) # events (update tc f) fs"

text \<open>A frame with the finger down at \<open>(x, y)\<close> at clock reading \<open>t\<close>.\<close>

definition down :: "int \<Rightarrow> int \<Rightarrow> uint32_t \<Rightarrow> Frame" where
  "down x y t = \<lparr>rawData = \<lparr>raw_x = i16 x, raw_y = i16 y, raw_touched = True, raw_gesture = 0\<rparr>,
                 touched = True,
                 millis1 = t, millis2 = t\<rparr>"

definition up :: "uint32_t \<Rightarrow> Frame" where
  "up t = \<lparr>rawData = \<lparr>raw_x = 0, raw_y = 0, raw_touched = False, raw_gesture = 0\<rparr>,
            touched = False, millis1 = t, millis2 = t\<rparr>"

text \<open>
  A frame continues a stationary long press of the controller when the finger is down,
  within the drag threshold of the start sample on both axes, more than 800 ms after the
  session began.
\<close>

definition held_still :: "TouchController \<Rightarrow> Frame \<Rightarrow> bool" where
  "held_still tc f \<longleftrightarrow>
     touched f
     \<and> millis2 f - m_touchStartTime tc > LONG_PRESS_DURATION
     \<and> \<bar>sint (i16 (sint (raw_x (rawData f)) - sint (tp_x (m_touchStart tc))))\<bar> < DRAG_THRESHOLD
     \<and> \<bar>sint (i16 (sint (raw_y (rawData f)) - sint (tp_y (m_touchStart tc))))\<bar> < DRAG_THRESHOLD"

definition in_session :: "TouchController \<Rightarrow> bool" where
  "in_session tc \<longleftrightarrow> pressed (m_currentTouch tc) \<and> \<not> m_isDragging tc"

section \<open>FrameBuffer\<close>

text \<open>
  Of the frame buffer, the dirty region and the switch that enables its tracking; the
  sprites and the frame counters play no part in \<open>markDirty\<close> and \<open>markAllDirty\<close>.
  The fields \<open>x\<close>, \<open>y\<close>, \<open>width\<close>, \<open>height\<close> of \<open>DirtyRegion\<close> are \<open>dr_x\<close>, ....
  The sums compared with the screen size are \<open>int\<close> sums of promoted operands; \<open>min\<close> is
  taken of two \<open>int16_t\<close>, \<open>max\<close> of two \<open>int\<close> sums and then stored in an \<open>int16_t\<close>.
\<close>

record DirtyRegion =
  dr_x :: int16_t
  dr_y :: int16_t
  dr_width :: int16_t
  dr_height :: int16_t
  dirty :: bool

record FrameBuffer =
  m_dirtyRegion :: DirtyRegion
  m_dirtyTracking :: bool

definition FrameBuffer_new :: FrameBuffer where
  "FrameBuffer_new =
     \<lparr>m_dirtyRegion = \<lparr>dr_x = 0, dr_y = 0, dr_width = i16 SCREEN_WIDTH,
                        dr_height = i16 SCREEN_HEIGHT, dirty = True\<rparr>,
      m_dirtyTracking = True\<rparr>"

definition clearDirtyFlags :: "FrameBuffer \<Rightarrow> FrameBuffer" where
  "clearDirtyFlags fb = fb\<lparr>m_dirtyRegion := (m_dirtyRegion fb)\<lparr>dirty := False\<rparr>\<rparr>"

definition markDirty ::
  "FrameBuffer \<Rightarrow> int16_t \<Rightarrow> int16_t \<Rightarrow> int16_t \<Rightarrow> int16_t \<Rightarrow> FrameBuffer" where
  "markDirty fb x0 y0 width0 height0 =
     (if \<not> m_dirtyTracking fb then fb
      else
        (let (width1, x) = (if sint x0 < 0 then (i16 (sint width0 + sint x0), 0) else (width0, x0));
             (height1, y) = (if sint y0 < 0 then (i16 (sint height0 + sint y0), 0) else (height0, y0));
             width = (if sint x + sint width1 > SCREEN_WIDTH then i16 (SCREEN_WIDTH - sint x)
                      else width1);
             height = (if sint y + sint height1 > SCREEN_HEIGHT then i16 (SCREEN_HEIGHT - sint y)
                       else height1);
             r = m_dirtyRegion fb
         in if sint width \<le> 0 \<or> sint height \<le> 0 then fb
            else if \<not> dirty r
            then fb\<lparr>m_dirtyRegion := \<lparr>dr_x = x, dr_y = y, dr_width = width, dr_height = height,
                                       dirty = True\<rparr>\<rparr>
            else
              (let x1 = (if sint x < sint (dr_x r) then x else dr_x r);
                   y1 = (if sint y < sint (dr_y r) then y else dr_y r);
                   x2 = i16 (max (sint (dr_x r) + sint (dr_width r)) (sint x + sint width));
                   y2 = i16 (max (sint (dr_y r) + sint (dr_height r)) (sint y + sint height))
               in fb\<lparr>m_dirtyRegion := r\<lparr>dr_x := x1, dr_y := y1,
                                         dr_width := i16 (sint x2 - sint x1),
                                         dr_height := i16 (sint y2 - sint y1)\<rparr>\<rparr>)))"

definition markAllDirty :: "FrameBuffer \<Rightarrow> FrameBuffer" where
  "markAllDirty fb =
     fb\<lparr>m_dirtyRegion := \<lparr>dr_x = 0, dr_y = 0, dr_width = i16 SCREEN_WIDTH,
                           dr_height = i16 SCREEN_HEIGHT, dirty = True\<rparr>\<rparr>"

text \<open>
  A rectangle, as four integers, lies on the surface when it is not empty and within the
  360 by 360 screen. Two rectangles are disjoint when one ends before the other begins on
  some axis. Their bounding union runs from the smaller origin to the larger far edge.
\<close>

type_synonym rect = "int \<times> int \<times> int \<times> int"

definition in_bounds :: "rect \<Rightarrow> bool" where
  "in_bounds r = (case r of (x, y, w, h) \<Rightarrow>
     0 \<le> x \<and> 0 \<le> y \<and> 0 < w \<and> 0 < h \<and> x + w \<le> SCREEN_WIDTH \<and> y + h \<le> SCREEN_HEIGHT)"

definition disjoint :: "rect \<Rightarrow> rect \<Rightarrow> bool" where
  "disjoint r1 r2 = (case (r1, r2) of ((x1, y1, w1, h1), (x2, y2, w2, h2)) \<Rightarrow>
     x1 + w1 \<le> x2 \<or> x2 + w2 \<le> x1 \<or> y1 + h1 \<le> y2 \<or> y2 + h2 \<le> y1)"

definition bounding_union :: "rect \<Rightarrow> rect \<Rightarrow> rect" where
  "bounding_union r1 r2 = (case (r1, r2) of ((x1, y1, w1, h1), (x2, y2, w2, h2)) \<Rightarrow>
     (min x1 x2, min y1 y2,
      max (x1 + w1) (x2 + w2) - min x1 x2, max (y1 + h1) (y2 + h2) - min y1 y2))"

definition markDirty_rect :: "FrameBuffer \<Rightarrow> rect \<Rightarrow> FrameBuffer" where
  "markDirty_rect fb r = (case r of (x, y, w, h) \<Rightarrow> markDirty fb (i16 x) (i16 y) (i16 w) (i16 h))"

definition region_rect :: "FrameBuffer \<Rightarrow> rect" where
  "region_rect fb = (let r = m_dirtyRegion fb
                     in (sint (dr_x r), sint (dr_y r), sint (dr_width r), sint (dr_height r)))"

section \<open>HexagonalGrid\<close>

text \<open>
  A grid item carries its label, its colour and its tap callback (a function pointer,
  \<open>None\<close> when null; \<open>'cb\<close> names the callbacks), and the position, index and
  visibility the grid computes. The icon and \<open>userData\<close> pointers are not read by the
  functions modelled here, except that \<open>drawItem\<close> draws, which is outside the model.
  The fields \<open>x\<close>, \<open>y\<close>, \<open>index\<close> of \<open>GridItem\<close> are \<open>item_x\<close>, \<open>item_y\<close>,
  \<open>item_index\<close>; the grid's \<open>m_centerX\<close> and \<open>m_centerY\<close> are \<open>m_centerX_grid\<close>
  and \<open>m_centerY_grid\<close>. An \<open>int\<close> is an unbounded integer: the counts here are far
  from its limits.
\<close>

record 'cb GridItem =
  label :: string
  backgroundColor :: "16 word"
  onTap :: "'cb option"
  item_x :: int16_t
  item_y :: int16_t
  item_index :: int
  visible :: bool

record 'cb HexagonalGrid =
  m_items :: "'cb GridItem list"
  m_centerX_grid :: int16_t
  m_centerY_grid :: int16_t
  m_itemRadius :: int16_t
  m_spacing :: int16_t
  m_scrollOffsetX :: int16_t
  m_scrollOffsetY :: int16_t
  m_maxScrollX :: int16_t
  m_maxScrollY :: int16_t
  m_hexDistance :: real
  m_smoothScrolling :: bool

definition RING_ITEMS :: "int list" where
  "RING_ITEMS = [1, 6, 12, 18, 24, 30]"

definition HexagonalGrid_new ::
  "int16_t \<Rightarrow> int16_t \<Rightarrow> int16_t \<Rightarrow> int16_t \<Rightarrow> 'cb HexagonalGrid" where
  "HexagonalGrid_new centerX centerY itemRadius spacing =
     \<lparr>m_items = [], m_centerX_grid = centerX, m_centerY_grid = centerY,
      m_itemRadius = itemRadius, m_spacing = spacing,
      m_scrollOffsetX = 0, m_scrollOffsetY = 0, m_maxScrollX = 0, m_maxScrollY = 0,
      m_hexDistance = real_of_int ((sint itemRadius * 2) + sint spacing),
      m_smoothScrolling = True\<rparr>"

text \<open>
  The ring search of \<open>getHexPosition\<close>: \<open>for (r = 0; r < 6; r++)\<close> with its \<open>break\<close>.
  It returns \<open>ring\<close> and \<open>itemsBeforeRing\<close>; \<open>ring\<close> is still 0, its initial value,
  when the loop ends without a \<open>break\<close>.
\<close>

function ring_search :: "nat \<Rightarrow> int \<Rightarrow> int \<Rightarrow> int \<Rightarrow> nat \<times> int" where
  "ring_search r index cumulativeItems itemsBeforeRing =
     (if r < 6
      then (let cumulativeItems' = cumulativeItems + RING_ITEMS ! r
            in if index < cumulativeItems' then (r, itemsBeforeRing)
               else ring_search (Suc r) index cumulativeItems' cumulativeItems')
      else (0, itemsBeforeRing))"
  by pat_completeness auto
termination
  by (relation "measure (\<lambda>(r, index, c, b). 6 - r)") auto

declare ring_search.simps [simp del]

definition getHexPosition :: "'cb HexagonalGrid \<Rightarrow> int \<Rightarrow> int16_t \<times> int16_t" where
  "getHexPosition g index =
     (if index = 0 then (m_centerX_grid g, m_centerY_grid g)
      else
        (let (ring, itemsBeforeRing) = ring_search 0 index 0 0;
             positionInRing = index - itemsBeforeRing;
             itemsInRing = RING_ITEMS ! ring;
             angle = (2 * pi * real_of_int positionInRing) / real_of_int itemsInRing + pi / 6;
             radius = real ring * m_hexDistance g
         in (i16 (sint (m_centerX_grid g) + sint (i16 (trunc (radius * cos angle)))),
             i16 (sint (m_centerY_grid g) + sint (i16 (trunc (radius * sin angle)))))))"

text \<open>\<open>calculateItemPositions\<close>: item \<open>i\<close> gets the position of index \<open>i\<close>.\<close>

fun place_items :: "'cb HexagonalGrid \<Rightarrow> nat \<Rightarrow> 'cb GridItem list \<Rightarrow> 'cb GridItem list" where
  "place_items g i [] = []"
| "place_items g i (it # its) =
     it\<lparr>item_x := fst (getHexPosition g (int i)), item_y := snd (getHexPosition g (int i))\<rparr>
       # place_items g (Suc i) its"

definition calculateItemPositions :: "'cb HexagonalGrid \<Rightarrow> 'cb HexagonalGrid" where
  "calculateItemPositions g = g\<lparr>m_items := place_items g 0 (m_items g)\<rparr>"

text \<open>The extent loop of \<open>updateScrollBounds\<close>, over the signed values of the fields.\<close>

fun extents :: "'cb GridItem list \<Rightarrow> int \<times> int \<times> int \<times> int \<Rightarrow> int \<times> int \<times> int \<times> int" where
  "extents [] e = e"
| "extents (it # its) (minX, maxX, minY, maxY) =
     extents its
       (if sint (item_x it) < minX then sint (item_x it) else minX,
        if sint (item_x it) > maxX then sint (item_x it) else maxX,
        if sint (item_y it) < minY then sint (item_y it) else minY,
        if sint (item_y it) > maxY then sint (item_y it) else maxY)"

definition updateScrollBounds :: "'cb HexagonalGrid \<Rightarrow> 'cb HexagonalGrid" where
  "updateScrollBounds g =
     (case m_items g of
        [] \<Rightarrow> g\<lparr>m_maxScrollX := 0, m_maxScrollY := 0\<rparr>
      | it0 # _ \<Rightarrow>
         (let (minX, maxX, minY, maxY) =
                extents (m_items g)
                  (sint (item_x it0), sint (item_x it0), sint (item_y it0), sint (item_y it0));
              gridWidth = i16 (maxX - minX + (sint (m_itemRadius g) * 2));
              gridHeight = i16 (maxY - minY + (sint (m_itemRadius g) * 2))
          in g\<lparr>m_maxScrollX := i16 (max 0 (cdiv (sint gridWidth - SCREEN_WIDTH) 2)),
                m_maxScrollY := i16 (max 0 (cdiv (sint gridHeight - SCREEN_HEIGHT) 2))\<rparr>))"

definition addItem :: "'cb HexagonalGrid \<Rightarrow> 'cb GridItem \<Rightarrow> 'cb HexagonalGrid" where
  "addItem g item =
     (let newItem = item\<lparr>item_index := int (length (m_items g)), visible := False\<rparr>;
          g1 = g\<lparr>m_items := m_items g @ [newItem]\<rparr>
      in updateScrollBounds (calculateItemPositions g1))"

definition isItemVisible :: "'cb HexagonalGrid \<Rightarrow> 'cb GridItem \<Rightarrow> bool" where
  "isItemVisible g item =
     (let screenX = i16 (sint (item_x item) + sint (m_scrollOffsetX g));
          screenY = i16 (sint (item_y item) + sint (m_scrollOffsetY g));
          margin = i16 (sint (m_itemRadius g) + 10)
      in sint screenX \<ge> - sint margin \<and> sint screenX < SCREEN_WIDTH + sint margin
         \<and> sint screenY \<ge> - sint margin \<and> sint screenY < SCREEN_HEIGHT + sint margin)"

text \<open>
  \<open>render\<close> returns at once when the display has no sprite; otherwise it recomputes the
  visibility of every item (and draws the visible ones, which leaves the grid alone).
\<close>

definition render :: "'cb HexagonalGrid \<Rightarrow> bool \<Rightarrow> 'cb HexagonalGrid" where
  "render g sprite =
     (if \<not> sprite then g
      else g\<lparr>m_items := map (\<lambda>it. it\<lparr>visible := isItemVisible g it\<rparr>) (m_items g)\<rparr>)"

text \<open>The hit test of \<open>getItemAtPosition\<close> for one item; \<open>distSquared\<close> is an \<open>int16_t\<close>.\<close>

definition covers :: "'cb HexagonalGrid \<Rightarrow> 'cb GridItem \<Rightarrow> int16_t \<Rightarrow> int16_t \<Rightarrow> bool" where
  "covers g item x y =
     (let screenX = i16 (sint (item_x item) + sint (m_scrollOffsetX g));
          screenY = i16 (sint (item_y item) + sint (m_scrollOffsetY g));
          dx = i16 (sint x - sint screenX);
          dy = i16 (sint y - sint screenY);
          distSquared = i16 (sint dx * sint dx + sint dy * sint dy)
      in sint distSquared \<le> sint (m_itemRadius g) * sint (m_itemRadius g))"

text \<open>The scan of \<open>getItemAtPosition\<close>; the item found is given by its position in \<open>m_items\<close>.\<close>

fun scan_items ::
  "'cb HexagonalGrid \<Rightarrow> nat \<Rightarrow> 'cb GridItem list \<Rightarrow> int16_t \<Rightarrow> int16_t \<Rightarrow> nat option" where
  "scan_items g i [] x y = None"
| "scan_items g i (it # its) x y =
     (if \<not> visible it then scan_items g (Suc i) its x y
      else if covers g it x y then Some i
      else scan_items g (Suc i) its x y)"

definition getItemAtPosition :: "'cb HexagonalGrid \<Rightarrow> int16_t \<Rightarrow> int16_t \<Rightarrow> nat option" where
  "getItemAtPosition g x y = scan_items g 0 (m_items g) x y"

text \<open>\<open>handleTap\<close> returns its result and the callback it ran, if it ran one.\<close>

definition handleTap :: "'cb HexagonalGrid \<Rightarrow> int16_t \<Rightarrow> int16_t \<Rightarrow> bool \<times> 'cb option" where
  "handleTap g x y =
     (case getItemAtPosition g x y of
        None \<Rightarrow> (False, None)
      | Some i \<Rightarrow>
         (case onTap (m_items g ! i) of
            None \<Rightarrow> (False, None)
          | Some cb \<Rightarrow> (True, Some cb)))"

definition demo_item :: "string \<Rightarrow> nat GridItem" where
  "demo_item l = \<lparr>label = l, backgroundColor = 0, onTap = Some 7, item_x = 0, item_y = 0,
                  item_index = 0, visible = True\<rparr>"

definition demo_grid :: "nat HexagonalGrid" where
  "demo_grid = HexagonalGrid_new 180 180 40 10"

definition seven_items :: "nat GridItem list" where
  "seven_items = map demo_item [''a'', ''b'', ''c'', ''d'', ''e'', ''f'', ''g'']"

text \<open>
  \<open>within_item_circle\<close> is the test the comment in \<open>getItemAtPosition\<close> names, "touch is
  within item circle", with the squared distance in unbounded integers; \<open>covers\<close> above
  is the test the code computes. A grid of seven items with the callbacks 0 to 6, rendered,
  and the same grid after an eighth item is added.
\<close>

definition within_item_circle ::
  "'cb HexagonalGrid \<Rightarrow> 'cb GridItem \<Rightarrow> int16_t \<Rightarrow> int16_t \<Rightarrow> bool" where
  "within_item_circle g item x y =
     (let dx = sint x - (sint (item_x item) + sint (m_scrollOffsetX g));
          dy = sint y - (sint (item_y item) + sint (m_scrollOffsetY g))
      in dx * dx + dy * dy \<le> sint (m_itemRadius g) * sint (m_itemRadius g))"

definition tagged_item :: "nat \<Rightarrow> nat GridItem" where
  "tagged_item k = \<lparr>label = [], backgroundColor = 0, onTap = Some k, item_x = 0, item_y = 0,
                    item_index = 0, visible = False\<rparr>"

definition demo_grid7 :: "nat HexagonalGrid" where
  "demo_grid7 = render (foldl addItem demo_grid (map tagged_item [0, 1, 2, 3, 4, 5, 6])) True"

definition demo_grid8 :: "nat HexagonalGrid" where
  "demo_grid8 = addItem demo_grid7 (tagged_item 7)"

section \<open>Single-precision arithmetic\<close>

text \<open>
  The slider computes its value in \<open>float\<close>. A \<open>float\<close> is modelled as the real number it
  stands for, and every \<open>float\<close> operation of the source as the exact operation followed
  by a rounding \<open>rnd\<close>, which the slider's value functions take as a parameter. What the
  proofs use of the rounding is \<open>rounding rnd\<close>: it is monotone and idempotent, it keeps
  0, 1, 100 and 270, and the difference of two different floats is not rounded to 0.
  Round-to-nearest binary32 has these properties as long as no operation overflows;
  the model has no infinity and no NaN. \<open>rnd32\<close> is round-to-nearest-even to 24
  significant bits (with no bound on the exponent), for the examples.
\<close>

definition rounding :: "(real \<Rightarrow> real) \<Rightarrow> bool" where
  "rounding rnd \<longleftrightarrow>
     (\<forall>x y. x \<le> y \<longrightarrow> rnd x \<le> rnd y)
     \<and> (\<forall>x. rnd (rnd x) = rnd x)
     \<and> rnd 0 = 0 \<and> rnd 1 = 1 \<and> rnd 100 = 100 \<and> rnd 270 = 270
     \<and> (\<forall>a b. rnd a = a \<longrightarrow> rnd b = b \<longrightarrow> rnd (a - b) = 0 \<longrightarrow> a = b)"

definition rne :: "real \<Rightarrow> int" where
  "rne x = (let f = \<lfloor>x\<rfloor>; d = x - of_int f
            in if d < 1 / 2 then f else if d > 1 / 2 then f + 1
               else if even f then f else f + 1)"

definition expo :: "real \<Rightarrow> int" where
  "expo x = \<lfloor>log 2 \<bar>x\<bar>\<rfloor>"

definition ulp :: "real \<Rightarrow> real" where
  "ulp x = 2 powr (real_of_int (expo x) - 23)"

definition rnd32 :: "real \<Rightarrow> real" where
  "rnd32 x = sgn x * (real_of_int (rne (\<bar>x\<bar> / ulp x)) * ulp x)"

text \<open>The magnitude of the rounded value.\<close>

definition rmag :: "real \<Rightarrow> real" where
  "rmag x = real_of_int (rne (\<bar>x\<bar> / ulp x)) * ulp x"

section \<open>CircularSlider\<close>

text \<open>
  The slider's geometry, value and angle fields, and its flags. Colours, label, display
  mode and the value-changed callback do not enter the computation of value and angle and
  are left out; the slider's \<open>m_isDragging\<close> is \<open>m_dragging\<close>.
\<close>

record CircularSlider =
  m_centerX :: int16_t
  m_centerY :: int16_t
  m_radius :: int16_t
  m_innerRadius :: int16_t
  m_value :: real
  m_minValue :: real
  m_maxValue :: real
  m_targetValue :: real
  m_startAngle :: int16_t
  m_endAngle :: int16_t
  m_currentAngle :: int16_t
  m_enabled :: bool
  m_dragging :: bool
  m_hasChanged :: bool

definition CircularSlider_new ::
  "int16_t \<Rightarrow> int16_t \<Rightarrow> int16_t \<Rightarrow> int16_t \<Rightarrow> CircularSlider" where
  "CircularSlider_new centerX centerY radius innerRadius =
     \<lparr>m_centerX = centerX, m_centerY = centerY, m_radius = radius, m_innerRadius = innerRadius,
      m_value = 0, m_minValue = 0, m_maxValue = 100, m_targetValue = 0,
      m_startAngle = 135, m_endAngle = 45, m_currentAngle = 135,
      m_enabled = True, m_dragging = False, m_hasChanged = False\<rparr>"

text \<open>The two loops of \<open>normalizeAngle\<close>, on the \<open>int16_t\<close> they update.\<close>

function add360_loop :: "int16_t \<Rightarrow> int16_t" where
  "add360_loop angle = (if sint angle < 0 then add360_loop (i16 (sint angle + 360)) else angle)"
  by pat_completeness auto
termination
proof (relation "measure (\<lambda>a. nat (- sint a))")
  show "wf (measure (\<lambda>a :: int16_t. nat (- sint a)))" by simp
next
  fix angle :: int16_t
  assume neg: "sint angle < 0"
  have "sint (i16 (sint angle + 360)) = sint angle + 360"
    using neg sint_ge16 [of angle] by simp
  then show "(i16 (sint angle + 360), angle) \<in> measure (\<lambda>a. nat (- sint a))"
    using neg by simp
qed

function sub360_loop :: "int16_t \<Rightarrow> int16_t" where
  "sub360_loop angle = (if sint angle \<ge> 360 then sub360_loop (i16 (sint angle - 360)) else angle)"
  by pat_completeness auto
termination
proof (relation "measure (\<lambda>a. nat (sint a))")
  show "wf (measure (\<lambda>a :: int16_t. nat (sint a)))" by simp
next
  fix angle :: int16_t
  assume big: "360 \<le> sint angle"
  have "sint (i16 (sint angle - 360)) = sint angle - 360"
    using big sint_lt16 [of angle] by simp
  then show "(i16 (sint angle - 360), angle) \<in> measure (\<lambda>a. nat (sint a))"
    using big by simp
qed

declare add360_loop.simps [simp del] sub360_loop.simps [simp del]

definition normalizeAngle :: "int16_t \<Rightarrow> int16_t" where
  "normalizeAngle angle = sub360_loop (add360_loop angle)"

text \<open>
  The static helper \<open>distance\<close>: the differences are stored in \<open>int16_t\<close>, their
  squares are added in \<open>int\<close> (which the sum exceeds only when both differences are
  \<open>-32768\<close>) and the root is taken of the sum.
\<close>

definition distance :: "int16_t \<Rightarrow> int16_t \<Rightarrow> int16_t \<Rightarrow> int16_t \<Rightarrow> real" where
  "distance x1 y1 x2 y2 =
     (let dx = i16 (sint x2 - sint x1);
          dy = i16 (sint y2 - sint y1)
      in sqrt (real_of_int (sint dx * sint dx + sint dy * sint dy)))"

definition contains :: "CircularSlider \<Rightarrow> int16_t \<Rightarrow> int16_t \<Rightarrow> bool" where
  "contains s x y =
     (let dist = distance (m_centerX s) (m_centerY s) x y
      in dist \<ge> real_of_int (sint (m_innerRadius s)) \<and> dist \<le> real_of_int (sint (m_radius s)))"

text \<open>\<open>atan2 y x\<close>, the angle of the point \<open>(x, y)\<close> in \<open>(-\<pi>, \<pi>]\<close>; \<open>RAD_TO_DEG\<close> of Arduino.\<close>

definition atan2 :: "real \<Rightarrow> real \<Rightarrow> real" where
  "atan2 y x =
     (if x > 0 then arctan (y / x)
      else if x < 0 then (if y \<ge> 0 then arctan (y / x) + pi else arctan (y / x) - pi)
      else if y > 0 then pi / 2
      else if y < 0 then - (pi / 2)
      else 0)"

definition RAD_TO_DEG :: real where
  "RAD_TO_DEG = 180 / pi"

text \<open>
  \<open>calculateAngleFromTouch\<close> in three steps: the touch angle in the frame where 0 is up,
  normalised; the angle relative to \<open>m_startAngle\<close> (the same four lines open
  \<open>calculateValueFromAngle\<close>); and the clamp that snaps an angle beyond the sweep to one of its ends.
\<close>

definition touchAngleDeg :: "CircularSlider \<Rightarrow> int16_t \<Rightarrow> int16_t \<Rightarrow> int16_t" where
  "touchAngleDeg s touchX touchY =
     (let dx = i16 (sint touchX - sint (m_centerX s));
          dy = i16 (sint touchY - sint (m_centerY s));
          angleRad = atan2 (real_of_int (sint dy)) (real_of_int (sint dx));
          angleDeg = i16 (trunc (angleRad * RAD_TO_DEG))
      in normalizeAngle (i16 (sint angleDeg + 90)))"

definition relativeAngle :: "CircularSlider \<Rightarrow> int16_t \<Rightarrow> int16_t" where
  "relativeAngle s angle =
     (if sint angle \<ge> sint (m_startAngle s) then i16 (sint angle - sint (m_startAngle s))
      else i16 ((360 - sint (m_startAngle s)) + sint angle))"

definition snapAngle :: "int16_t \<Rightarrow> int16_t" where
  "snapAngle rel = (if sint rel > 270 then (if sint rel > 315 then 270 else 0) else rel)"

definition calculateAngleFromTouch :: "CircularSlider \<Rightarrow> int16_t \<Rightarrow> int16_t \<Rightarrow> CircularSlider" where
  "calculateAngleFromTouch s touchX touchY =
     (let rel = snapAngle (relativeAngle s (touchAngleDeg s touchX touchY))
      in s\<lparr>m_currentAngle := normalizeAngle (i16 (sint (m_startAngle s) + sint rel))\<rparr>)"

definition calculateValueFromAngle :: "(real \<Rightarrow> real) \<Rightarrow> CircularSlider \<Rightarrow> CircularSlider" where
  "calculateValueFromAngle rnd s =
     (let rel = relativeAngle s (m_currentAngle s);
          normalizedValue = rnd (real_of_int (sint rel) / 270);
          target = rnd (m_minValue s + rnd (normalizedValue * rnd (m_maxValue s - m_minValue s)))
      in s\<lparr>m_targetValue := target, m_value := target\<rparr>)"

definition setRange :: "(real \<Rightarrow> real) \<Rightarrow> CircularSlider \<Rightarrow> real \<Rightarrow> real \<Rightarrow> CircularSlider" where
  "setRange rnd s0 lo hi =
     (let s1 = s0\<lparr>m_minValue := lo, m_maxValue := hi\<rparr>;
          s2 = (if m_value s1 < m_minValue s1 then s1\<lparr>m_value := m_minValue s1\<rparr> else s1);
          s3 = (if m_value s2 > m_maxValue s2 then s2\<lparr>m_value := m_maxValue s2\<rparr> else s2)
      in calculateValueFromAngle rnd s3)"

text \<open>
  \<open>setValue\<close> divides by \<open>m_maxValue - m_minValue\<close>. When that difference is 0 the
  quotient is an infinity or a NaN and its cast to \<open>int16_t\<close> is undefined: the result
  is \<open>None\<close> then.
\<close>

definition setValue :: "(real \<Rightarrow> real) \<Rightarrow> CircularSlider \<Rightarrow> real \<Rightarrow> CircularSlider option" where
  "setValue rnd s v0 =
     (let v1 = (if v0 < m_minValue s then m_minValue s else v0);
          v = (if v1 > m_maxValue s then m_maxValue s else v1)
      in if m_value s \<noteq> v
         then (if rnd (m_maxValue s - m_minValue s) = 0 then None
               else
                 (let normalizedValue = rnd (rnd (v - m_minValue s) / rnd (m_maxValue s - m_minValue s));
                      angleRange = 270;
                      cur = i16 (sint (m_startAngle s)
                                 + sint (i16 (trunc (rnd (normalizedValue * angleRange)))))
                  in Some (s\<lparr>m_value := v, m_targetValue := v,
                             m_currentAngle := normalizeAngle cur, m_hasChanged := True\<rparr>)))
         else Some s)"

text \<open>
  \<open>update\<close> of the slider, by its two blocks: the touch handling, then the value
  animation. (\<open>TouchController\<close> has the name \<open>update\<close>.)
\<close>

definition touch_step :: "(real \<Rightarrow> real) \<Rightarrow> CircularSlider \<Rightarrow> TouchPoint \<Rightarrow> CircularSlider" where
  "touch_step rnd s touchPoint =
     (let isTouching = pressed touchPoint;
          touchInBounds = contains s (tp_x touchPoint) (tp_y touchPoint)
      in if isTouching \<and> touchInBounds
         then (calculateValueFromAngle rnd
                 (calculateAngleFromTouch (if \<not> m_dragging s then s\<lparr>m_dragging := True\<rparr> else s)
                    (tp_x touchPoint) (tp_y touchPoint)))\<lparr>m_hasChanged := True\<rparr>
         else if m_dragging s \<and> \<not> isTouching then s\<lparr>m_dragging := False\<rparr>
         else s)"

definition smooth_step :: "(real \<Rightarrow> real) \<Rightarrow> CircularSlider \<Rightarrow> CircularSlider" where
  "smooth_step rnd s =
     (if m_value s \<noteq> m_targetValue s
      then (let diff = rnd (m_targetValue s - m_value s);
                s1 = s\<lparr>m_value := rnd (m_value s + rnd (diff * rnd 0.2))\<rparr>
            in if \<bar>diff\<bar> < rnd 0.1 then s1\<lparr>m_value := m_targetValue s1\<rparr> else s1)
      else s)"

definition update_slider :: "(real \<Rightarrow> real) \<Rightarrow> CircularSlider \<Rightarrow> TouchPoint \<Rightarrow> CircularSlider" where
  "update_slider rnd s touchPoint =
     (if \<not> m_enabled s then s else smooth_step rnd (touch_step rnd s touchPoint))"

definition getValue :: "CircularSlider \<Rightarrow> real" where
  "getValue s = m_value s"

text \<open>Sequences of calls; a sequence stops at an undefined \<open>setValue\<close>.\<close>

datatype SliderOp = SetValue real | SetRange real real | Update TouchPoint

fun apply_op :: "(real \<Rightarrow> real) \<Rightarrow> CircularSlider \<Rightarrow> SliderOp \<Rightarrow> CircularSlider option" where
  "apply_op rnd s (SetValue v) = setValue rnd s v"
| "apply_op rnd s (SetRange lo hi) = Some (setRange rnd s lo hi)"
| "apply_op rnd s (Update tp) = Some (update_slider rnd s tp)"

fun run_ops :: "(real \<Rightarrow> real) \<Rightarrow> CircularSlider \<Rightarrow> SliderOp list \<Rightarrow> CircularSlider option" where
  "run_ops rnd s [] = Some s"
| "run_ops rnd s (op # ops) =
     (case apply_op rnd s op of None \<Rightarrow> None | Some s' \<Rightarrow> run_ops rnd s' ops)"

text \<open>
  The angle is within the sweep when it is a normalised angle at most 270 degrees past
  the start angle, modulo 360. A touch takes the snap branch when its relative angle,
  before the clamp, exceeds 270. \<open>dist_sq\<close> is the squared distance \<open>contains\<close> takes
  the root of.
\<close>

definition in_sweep :: "CircularSlider \<Rightarrow> bool" where
  "in_sweep s \<longleftrightarrow>
     0 \<le> sint (m_currentAngle s) \<and> sint (m_currentAngle s) < 360
     \<and> (sint (m_currentAngle s) - sint (m_startAngle s)) mod 360 \<le> 270"

definition snaps :: "CircularSlider \<Rightarrow> int16_t \<Rightarrow> int16_t \<Rightarrow> bool" where
  "snaps s x y \<longleftrightarrow> sint (relativeAngle s (touchAngleDeg s x y)) > 270"

definition dist_sq :: "CircularSlider \<Rightarrow> int16_t \<Rightarrow> int16_t \<Rightarrow> int" where
  "dist_sq s x y =
     (let dx = i16 (sint x - sint (m_centerX s));
          dy = i16 (sint y - sint (m_centerY s))
      in sint dx * sint dx + sint dy * sint dy)"

text \<open>
  The arguments of a \<open>setRange\<close> call are floats: rounding leaves them as they are.
  \<open>top_value\<close> is what the code computes for the upper end of the range,
  \<open>min + 1.0f * (max - min)\<close>; rounding can put it above \<open>max\<close>. The invariant of the
  slider: the start angle is the constructor's, the angle is within the sweep, value and
  target are equal, the bounds are floats, and an ordered range holds the value between
  \<open>min\<close> and the larger of \<open>max\<close> and \<open>top_value\<close>.
\<close>

fun float_args :: "(real \<Rightarrow> real) \<Rightarrow> SliderOp \<Rightarrow> bool" where
  "float_args rnd (SetRange lo hi) = (rnd lo = lo \<and> rnd hi = hi)"
| "float_args rnd _ = True"

definition top_value :: "(real \<Rightarrow> real) \<Rightarrow> CircularSlider \<Rightarrow> real" where
  "top_value rnd s = rnd (m_minValue s + rnd (m_maxValue s - m_minValue s))"

definition value_bounded :: "(real \<Rightarrow> real) \<Rightarrow> CircularSlider \<Rightarrow> bool" where
  "value_bounded rnd s \<longleftrightarrow>
     m_minValue s \<le> m_value s \<and> m_value s \<le> max (m_maxValue s) (top_value rnd s)"

definition slider_inv :: "(real \<Rightarrow> real) \<Rightarrow> CircularSlider \<Rightarrow> bool" where
  "slider_inv rnd s \<longleftrightarrow>
     m_startAngle s = 135 \<and> in_sweep s \<and> m_value s = m_targetValue s
     \<and> rnd (m_minValue s) = m_minValue s \<and> rnd (m_maxValue s) = m_maxValue s
     \<and> (m_minValue s \<le> m_maxValue s \<longrightarrow> value_bounded rnd s)"

definition demo_slider :: CircularSlider where
  "demo_slider = CircularSlider_new 180 180 100 80"

text \<open>
  The floats nearest to 0.7 and 1.9, the float their difference rounds to, the float
  above \<open>f1_9\<close>, and a sequence of calls that sets the range \<open>[0.7f, 1.9f]\<close>, moves the
  value to its upper end and sets the range again.
\<close>

definition f0_7 :: real where "f0_7 = 11744051 / 16777216"
definition f1_9 :: real where "f1_9 = 15938355 / 8388608"
definition f1_2 :: real where "f1_2 = 10066330 / 8388608"
definition f1_9_above :: real where "f1_9_above = 15938356 / 8388608"

definition demo_set_ops :: "SliderOp list" where
  "demo_set_ops = [SetRange f0_7 f1_9, SetValue f1_9]"

definition demo_ops :: "SliderOp list" where
  "demo_ops = demo_set_ops @ [SetRange f0_7 f1_9]"

section \<open>Properties of the NavigationController\<close>

lemma findRoute_from_None:
  "p \<notin> path ` set rs \<Longrightarrow> findRoute_from rs p i = None"
  by (induction rs arbitrary: i) auto

text \<open>
  C4. For every router state and every path that no registered route has,
  \<open>navigateTo\<close> returns false and leaves the router as it was: the stack depth and
  the top page, and indeed every field, are unchanged, whatever \<open>clearStack\<close> is.
\<close>

theorem navigateTo_unregistered:
  assumes "p \<notin> path ` set (m_routes nc)"
  shows "\<exists>nc'. navigateTo nc (Some p) clearStack = Some (False, nc')
           \<and> getStackDepth nc' = getStackDepth nc
           \<and> getCurrentPage nc' = getCurrentPage nc
           \<and> nc' = nc"
proof -
  have "findRoute nc p = None"
    using assms by (simp add: findRoute_def findRoute_from_None)
  then have "navigateTo nc (Some p) clearStack = Some (False, nc)"
    by (subst navigateTo.simps) simp
  then show ?thesis by simp
qed

theorem navigateTo_unregistered_witness:
  "navigateTo (demo_nav [1, 2]) (Some ''/nowhere'') True = Some (False, demo_nav [1, 2])
   \<and> getStackDepth (demo_nav [1, 2]) = 2 \<and> getCurrentPage (demo_nav [1, 2]) = Some 2"
proof -
  have h: "''/nowhere'' \<notin> path ` set (m_routes (demo_nav [1, 2]))"
    by (simp add: demo_nav_def demo_routes_def)
  show ?thesis
    using navigateTo_unregistered [OF h, of True]
    by (simp add: getStackDepth_def getCurrentPage_def demo_nav_def)
qed

text \<open>
  C5. When the stack depth is at most 1, \<open>goBack\<close> returns false and the router,
  its stack included, is exactly as before; no page is called.
\<close>

theorem goBack_at_root:
  assumes "getStackDepth nc \<le> 1"
  shows "goBack nc = (False, nc)"
  using assms by (simp add: goBack_def canGoBack_def getStackDepth_def)

theorem goBack_at_root_witness:
  "getStackDepth (demo_nav [1]) \<le> 1 \<and> goBack (demo_nav [1]) = (False, demo_nav [1])
   \<and> goBack (demo_nav []) = (False, demo_nav [])"
proof -
  have h1: "getStackDepth (demo_nav [1]) \<le> 1"
    by (simp add: getStackDepth_def demo_nav_def)
  have h0: "getStackDepth (demo_nav []) \<le> 1"
    by (simp add: getStackDepth_def demo_nav_def)
  show ?thesis
    using h1 goBack_at_root [OF h1] goBack_at_root [OF h0] by simp
qed

text \<open>
  C8. After every \<open>goBack\<close> that returns true, \<open>getCurrentRoute\<close> is null: a
  successful call popped a stack of at least two pages, so the stack it leaves is not
  empty and the branch that clears the route pointer is always taken.
\<close>

theorem goBack_clears_current_route:
  assumes "fst (goBack nc)"
  shows "getCurrentRoute (snd (goBack nc)) = None"
proof -
  from assms have depth: "length (m_stack nc) > 1"
    by (auto simp: goBack_def canGoBack_def split: if_splits)
  then have "butlast (m_stack nc) \<noteq> []"
    by (cases "m_stack nc" rule: rev_cases) auto
  with depth show ?thesis
    by (simp add: goBack_def canGoBack_def getCurrentRoute_def cleanupPage_def Let_def)
qed

theorem goBack_clears_current_route_witness:
  "fst (goBack (demo_nav [1, 2]))
   \<and> m_currentRoute (demo_nav [1, 2]) = Some 0
   \<and> getCurrentRoute (snd (goBack (demo_nav [1, 2]))) = None
   \<and> m_stack (snd (goBack (demo_nav [1, 2]))) = [1]"
proof -
  have h: "fst (goBack (demo_nav [1, 2]))"
    by (simp add: goBack_def canGoBack_def demo_nav_def Let_def)
  show ?thesis
    using h goBack_clears_current_route [OF h]
    by (simp add: goBack_def canGoBack_def demo_nav_def Let_def cleanupPage_def)
qed

section \<open>Properties of the TouchController\<close>

lemma update_held_still:
  assumes "in_session tc" "held_still tc f"
  shows "getLastEvent (update tc f) = LONG_PRESS"
    and "in_session (update tc f)"
    and "m_touchStart (update tc f) = m_touchStart tc"
    and "m_touchStartTime (update tc f) = m_touchStartTime tc"
  using assms
  by (simp_all add: in_session_def held_still_def update_def detectGestures_def
        getLastEvent_def Let_def)

lemma held_still_cong:
  "m_touchStart tc' = m_touchStart tc \<Longrightarrow> m_touchStartTime tc' = m_touchStartTime tc
   \<Longrightarrow> held_still tc' f = held_still tc f"
  by (simp add: held_still_def)

text \<open>
  \<open>detectGestures\<close> keeps no record that it has reported a long press (as
  \<open>m_isDragging\<close> records a reported drag start): in a session that is not dragging,
  every continuing frame that is within the drag threshold of the start sample and more
  than 800 ms after the press yields \<open>LONG_PRESS\<close>. A run of \<open>n\<close> such frames yields
  \<open>n\<close> long presses.
\<close>

lemma long_press_every_frame:
  assumes "in_session tc" and "\<forall>f \<in> set fs. held_still tc f"
  shows "events tc fs = replicate (length fs) LONG_PRESS"
  using assms
proof (induction fs arbitrary: tc)
  case Nil
  then show ?case by simp
next
  case (Cons f fs)
  then have f: "held_still tc f" by simp
  note u = update_held_still [OF Cons.prems(1) f]
  have "\<forall>g \<in> set fs. held_still (update tc f) g"
    using Cons.prems(2) held_still_cong [OF u(3) u(4)] by simp
  then have "events (update tc f) fs = replicate (length fs) LONG_PRESS"
    using Cons.IH u(2) by blast
  then show ?case using u(1) by simp
qed

lemmas touch_defs =
  TouchController_new_def down_def up_def update_def detectGestures_def
  getLastEvent_def resetGestureState_def Let_def i16_def
  LONG_PRESS_DURATION_def TAP_MAX_DURATION_def DRAG_THRESHOLD_def

text \<open>
  C1. A stationary session held for at least 800 ms should report \<open>LONG_PRESS\<close> exactly
  once. The code does not: a finger that rests at \<open>(100, 100)\<close> and is sampled at 0, 900
  and 933 ms, then lifted, reports the long press on two frames; and one sampled at 0 and
  at exactly 800 ms, then lifted at 833 ms, reports none, the test being
  \<open>duration > 800\<close>.
\<close>

theorem long_press_twice:
  "events TouchController_new [down 100 100 0, down 100 100 900, down 100 100 933, up 966]
     = [NONE, LONG_PRESS, LONG_PRESS, NONE]
   \<and> count_list
        (events TouchController_new [down 100 100 0, down 100 100 900, down 100 100 933, up 966])
        LONG_PRESS = 2
   \<and> events TouchController_new [down 100 100 0, down 100 100 800, up 833]
     = [NONE, NONE, NONE]"
  by (simp add: touch_defs)

section \<open>Properties of the FrameBuffer\<close>

lemma markDirty_first:
  assumes "m_dirtyTracking fb" "\<not> dirty (m_dirtyRegion fb)" "in_bounds (x, y, w, h)"
  shows "markDirty_rect fb (x, y, w, h) =
         fb\<lparr>m_dirtyRegion := \<lparr>dr_x = i16 x, dr_y = i16 y, dr_width = i16 w, dr_height = i16 h,
                               dirty = True\<rparr>\<rparr>"
  using assms
  by (simp add: markDirty_rect_def markDirty_def in_bounds_def SCREEN_WIDTH_def SCREEN_HEIGHT_def Let_def)

lemma markDirty_second:
  assumes "m_dirtyTracking fb" "dirty (m_dirtyRegion fb)" "in_bounds (x, y, w, h)"
    "in_bounds (region_rect fb)"
  shows "region_rect (markDirty_rect fb (x, y, w, h)) = bounding_union (region_rect fb) (x, y, w, h)"
    and "dirty (m_dirtyRegion (markDirty_rect fb (x, y, w, h)))"
  using assms
  by (auto simp add: markDirty_rect_def markDirty_def in_bounds_def SCREEN_WIDTH_def SCREEN_HEIGHT_def Let_def region_rect_def bounding_union_def max_def min_def)

lemma markDirty_first_region:
  assumes "m_dirtyTracking fb" "\<not> dirty (m_dirtyRegion fb)" "in_bounds (x, y, w, h)"
  shows "region_rect (markDirty_rect fb (x, y, w, h)) = (x, y, w, h)"
    and "dirty (m_dirtyRegion (markDirty_rect fb (x, y, w, h)))"
    and "m_dirtyTracking (markDirty_rect fb (x, y, w, h))"
  using assms(1, 3) unfolding markDirty_first [OF assms]
  by (simp_all add: region_rect_def in_bounds_def SCREEN_WIDTH_def SCREEN_HEIGHT_def)

text \<open>
  C6. With dirty tracking enabled and no dirty region set, two calls of \<open>markDirty\<close>
  with rectangles that lie on the surface leave one dirty region, the bounding union of
  the two. The rectangles need not even be disjoint. And \<open>markAllDirty\<close> sets the region
  to the whole surface from any state \<open>fb'\<close>, tracked or not, dirty or not.
\<close>

theorem markDirty_twice_union:
  assumes "m_dirtyTracking fb" and "\<not> dirty (m_dirtyRegion fb)"
    and "in_bounds r1" and "in_bounds r2"
  shows "region_rect (markDirty_rect (markDirty_rect fb r1) r2) = bounding_union r1 r2
         \<and> dirty (m_dirtyRegion (markDirty_rect (markDirty_rect fb r1) r2))
         \<and> region_rect (markAllDirty fb') = (0, 0, SCREEN_WIDTH, SCREEN_HEIGHT)
         \<and> dirty (m_dirtyRegion (markAllDirty fb'))"
proof -
  obtain x y w h where r1: "r1 = (x, y, w, h)" by (cases r1) auto
  obtain x' y' w' h' where r2: "r2 = (x', y', w', h')" by (cases r2) auto
  note first = markDirty_first_region [OF assms(1, 2) assms(3) [unfolded r1]]
  have ib: "in_bounds (region_rect (markDirty_rect fb (x, y, w, h)))"
    using first(1) assms(3) r1 by simp
  note second = markDirty_second [OF first(3) first(2) assms(4) [unfolded r2] ib]
  have "region_rect (markAllDirty fb') = (0, 0, SCREEN_WIDTH, SCREEN_HEIGHT)"
    "dirty (m_dirtyRegion (markAllDirty fb'))"
    by (simp_all add: markAllDirty_def region_rect_def SCREEN_WIDTH_def SCREEN_HEIGHT_def)
  then show ?thesis
    using second first(1) by (simp add: r1 r2)
qed

theorem markDirty_twice_union_witness:
  "m_dirtyTracking (clearDirtyFlags FrameBuffer_new)
   \<and> \<not> dirty (m_dirtyRegion (clearDirtyFlags FrameBuffer_new))
   \<and> in_bounds (10, 10, 20, 20) \<and> in_bounds (100, 200, 50, 30)
   \<and> disjoint (10, 10, 20, 20) (100, 200, 50, 30)
   \<and> region_rect (markDirty_rect (markDirty_rect (clearDirtyFlags FrameBuffer_new)
         (10, 10, 20, 20)) (100, 200, 50, 30)) = (10, 10, 140, 220)
   \<and> region_rect (markAllDirty (markDirty_rect (clearDirtyFlags FrameBuffer_new)
         (10, 10, 20, 20))) = (0, 0, 360, 360)"
proof -
  have t: "m_dirtyTracking (clearDirtyFlags FrameBuffer_new)"
    and d: "\<not> dirty (m_dirtyRegion (clearDirtyFlags FrameBuffer_new))"
    by (simp_all add: clearDirtyFlags_def FrameBuffer_new_def)
  have b1: "in_bounds (10, 10, 20, 20)" and b2: "in_bounds (100, 200, 50, 30)"
    by (simp_all add: in_bounds_def SCREEN_WIDTH_def SCREEN_HEIGHT_def)
  have dj: "disjoint (10, 10, 20, 20) (100, 200, 50, 30)"
    by (simp add: disjoint_def)
  show ?thesis
    using t d b1 b2 dj
      markDirty_twice_union [OF t d b1 b2,
        of "markDirty_rect (clearDirtyFlags FrameBuffer_new) (10, 10, 20, 20)"]
    by (simp add: bounding_union_def SCREEN_WIDTH_def SCREEN_HEIGHT_def)
qed

section \<open>Properties of the HexagonalGrid\<close>

lemma ring_search_91: "91 \<le> index \<Longrightarrow> ring_search 0 index 0 0 = (0, 91)"
  by (simp add: ring_search.simps RING_ITEMS_def numeral_nat)

lemma ring_search_1: "ring_search 0 1 0 0 = (1, 1)"
  by (simp add: ring_search.simps RING_ITEMS_def)

text \<open>
  C10. The ring table has six entries, rings 0 to 5, 91 places in all. For every index
  from 91 on the ring search ends without a \<open>break\<close>: \<open>ring\<close> is still 0, so the
  radius is 0, and the position is exactly the centre, the position of index 0.
\<close>

theorem getHexPosition_beyond_table:
  assumes "91 \<le> index"
  shows "sum_list RING_ITEMS = 91 \<and> length RING_ITEMS = 6
         \<and> ring_search 0 index 0 0 = (0, 91)
         \<and> real (fst (ring_search 0 index 0 0)) * m_hexDistance g = 0
         \<and> getHexPosition g index = (m_centerX_grid g, m_centerY_grid g)
         \<and> getHexPosition g index = getHexPosition g 0"
  using assms ring_search_91 [OF assms]
  by (simp add: getHexPosition_def trunc_def i16_def RING_ITEMS_def)

theorem getHexPosition_beyond_table_witness:
  "(91::int) \<le> 91 \<and> (91::int) \<le> 1000
   \<and> getHexPosition demo_grid 91 = (180, 180)
   \<and> getHexPosition demo_grid 1000 = (180, 180)
   \<and> getHexPosition demo_grid 0 = (180, 180)"
proof -
  have c: "m_centerX_grid demo_grid = 180" "m_centerY_grid demo_grid = 180"
    by (simp_all add: demo_grid_def HexagonalGrid_new_def)
  have z: "getHexPosition demo_grid 0 = (180, 180)"
    by (simp add: getHexPosition_def c)
  show ?thesis
    using getHexPosition_beyond_table [of 91 demo_grid]
      getHexPosition_beyond_table [of 1000 demo_grid] z
    by (simp add: c)
qed

lemma floor_45_sqrt3: "\<lfloor>45 * sqrt 3\<rfloor> = 77"
proof -
  have "(77 / 45)\<^sup>2 \<le> (3::real)" by (simp add: power2_eq_square)
  then have lo: "77 / 45 \<le> sqrt 3" by (rule real_le_rsqrt)
  have "(3::real) < (78 / 45)\<^sup>2" by (simp add: power2_eq_square)
  then have hi: "sqrt 3 < 78 / 45" by (intro real_less_lsqrt) simp_all
  show ?thesis using lo hi by (simp add: floor_eq_iff)
qed

lemma trunc_90_cos30: "trunc (90 * cos (pi / 6)) = 77"
  using floor_45_sqrt3 by (simp add: trunc_def cos_30)

lemma trunc_90_sin30: "trunc (90 * sin (pi / 6)) = 45"
  by (simp add: trunc_def sin_30)

lemma hex_position_1:
  assumes "m_hexDistance g = 90"
  shows "getHexPosition g 1
         = (i16 (sint (m_centerX_grid g) + 77), i16 (sint (m_centerY_grid g) + 45))"
  by (simp add: getHexPosition_def ring_search_1 assms RING_ITEMS_def
        trunc_90_cos30 trunc_90_sin30)

lemma getHexPosition_cong:
  "m_centerX_grid g' = m_centerX_grid g \<Longrightarrow> m_centerY_grid g' = m_centerY_grid g
   \<Longrightarrow> m_hexDistance g' = m_hexDistance g \<Longrightarrow> getHexPosition g' i = getHexPosition g i"
  by (simp add: getHexPosition_def)

lemma length_place_items [simp]: "length (place_items g i its) = length its"
  by (induction its arbitrary: i) auto

lemma place_items_nth:
  "k < length its \<Longrightarrow>
   item_x (place_items g i its ! k) = fst (getHexPosition g (int (i + k)))
   \<and> item_y (place_items g i its ! k) = snd (getHexPosition g (int (i + k)))
   \<and> visible (place_items g i its ! k) = visible (its ! k)
   \<and> onTap (place_items g i its ! k) = onTap (its ! k)"
proof (induction its arbitrary: i k)
  case Nil
  then show ?case by simp
next
  case (Cons it its)
  show ?case
  proof (cases k)
    case 0
    then show ?thesis by simp
  next
    case (Suc k')
    with Cons.prems have "k' < length its" by simp
    from Cons.IH [OF this, of "Suc i"] Suc show ?thesis by simp
  qed
qed

lemma updateScrollBounds_fields [simp]:
  "m_items (updateScrollBounds g) = m_items g"
  "m_centerX_grid (updateScrollBounds g) = m_centerX_grid g"
  "m_centerY_grid (updateScrollBounds g) = m_centerY_grid g"
  "m_hexDistance (updateScrollBounds g) = m_hexDistance g"
  "m_itemRadius (updateScrollBounds g) = m_itemRadius g"
  "m_scrollOffsetX (updateScrollBounds g) = m_scrollOffsetX g"
  "m_scrollOffsetY (updateScrollBounds g) = m_scrollOffsetY g"
  by (simp_all add: updateScrollBounds_def Let_def split: list.splits prod.splits)

lemma addItem_fields [simp]:
  "m_centerX_grid (addItem g it) = m_centerX_grid g"
  "m_centerY_grid (addItem g it) = m_centerY_grid g"
  "m_hexDistance (addItem g it) = m_hexDistance g"
  "m_itemRadius (addItem g it) = m_itemRadius g"
  "m_scrollOffsetX (addItem g it) = m_scrollOffsetX g"
  "m_scrollOffsetY (addItem g it) = m_scrollOffsetY g"
  "length (m_items (addItem g it)) = Suc (length (m_items g))"
  by (simp_all add: addItem_def calculateItemPositions_def Let_def)

lemma place_items_cong:
  assumes "m_centerX_grid g' = m_centerX_grid g" "m_centerY_grid g' = m_centerY_grid g"
    "m_hexDistance g' = m_hexDistance g"
  shows "place_items g' i its = place_items g i its"
  by (induction its arbitrary: i) (simp_all add: getHexPosition_cong [OF assms])

lemma addItem_items:
  "m_items (addItem g it)
   = place_items g 0 (m_items g @ [it\<lparr>item_index := int (length (m_items g)), visible := False\<rparr>])"
proof -
  let ?its = "m_items g @ [it\<lparr>item_index := int (length (m_items g)), visible := False\<rparr>]"
  have "place_items (g\<lparr>m_items := ?its\<rparr>) 0 ?its = place_items g 0 ?its"
    by (rule place_items_cong) simp_all
  then show ?thesis
    by (simp add: addItem_def calculateItemPositions_def Let_def)
qed

lemma addItem_position:
  assumes "k \<le> length (m_items g)"
  shows "item_x (m_items (addItem g it) ! k) = fst (getHexPosition g (int k))"
    and "item_y (m_items (addItem g it) ! k) = snd (getHexPosition g (int k))"
  using assms place_items_nth [of k _ g 0] by (simp_all add: addItem_items)

lemma foldl_addItem_fields:
  "m_centerX_grid (foldl addItem g its) = m_centerX_grid g
   \<and> m_centerY_grid (foldl addItem g its) = m_centerY_grid g
   \<and> m_hexDistance (foldl addItem g its) = m_hexDistance g
   \<and> length (m_items (foldl addItem g its)) = length (m_items g) + length its"
  by (induction its rule: rev_induct) simp_all

lemma foldl_addItem_position:
  assumes "its \<noteq> []" "k < length (m_items g) + length its"
  shows "(item_x (m_items (foldl addItem g its) ! k), item_y (m_items (foldl addItem g its) ! k))
         = getHexPosition g (int k)"
proof -
  obtain ys y where its: "its = ys @ [y]"
    using assms(1) by (cases its rule: rev_cases) auto
  let ?g = "foldl addItem g ys"
  have k: "k \<le> length (m_items ?g)"
    using assms(2) foldl_addItem_fields [of g ys] by (simp add: its)
  have "getHexPosition ?g (int k) = getHexPosition g (int k)"
    using foldl_addItem_fields [of g ys] by (intro getHexPosition_cong) simp_all
  then show ?thesis
    using addItem_position [OF k, of y] by (simp add: its)
qed

text \<open>
  C3, as the code has it. In a grid built with item radius 40 and spacing 10 (hex distance
  90) and filled with seven items, index 1 is the first place of ring 1: angle 30 degrees,
  radius 90, laid out with \<open>x = centerX + radius * cos angle\<close> and
  \<open>y = centerY + radius * sin angle\<close>, the fraction dropped. That is 77 to the right of
  the centre and 45 below it (the screen's y axis points down): the angle is measured from
  the positive x axis, not from "up".
\<close>

theorem index1_position:
  assumes "length its = 7"
  shows "m_hexDistance (foldl addItem (HexagonalGrid_new cx cy 40 10) its) = 90
         \<and> getHexPosition (foldl addItem (HexagonalGrid_new cx cy 40 10) its) 1
             = (i16 (sint cx + trunc (90 * cos (pi / 6))), i16 (sint cy + trunc (90 * sin (pi / 6))))
         \<and> trunc (90 * cos (pi / 6)) = 77 \<and> trunc (90 * sin (pi / 6)) = 45
         \<and> item_x (m_items (foldl addItem (HexagonalGrid_new cx cy 40 10) its) ! 1) = i16 (sint cx + 77)
         \<and> item_y (m_items (foldl addItem (HexagonalGrid_new cx cy 40 10) its) ! 1) = i16 (sint cy + 45)"
proof -
  define g0 where "g0 = (HexagonalGrid_new cx cy 40 10 :: 'a HexagonalGrid)"
  define g where "g = foldl addItem g0 its"
  have d0: "m_hexDistance g0 = 90" and c0: "m_centerX_grid g0 = cx" "m_centerY_grid g0 = cy"
    and e0: "m_items g0 = []"
    by (simp_all add: g0_def HexagonalGrid_new_def)
  have d: "m_hexDistance g = 90" and c: "m_centerX_grid g = cx" "m_centerY_grid g = cy"
    using foldl_addItem_fields [of g0 its] d0 c0 by (simp_all add: g_def)
  have ne: "its \<noteq> []" using assms by auto
  have "(1::nat) < length (m_items g0) + length its" using assms e0 by simp
  from foldl_addItem_position [OF ne this]
  have "(item_x (m_items g ! 1), item_y (m_items g ! 1)) = getHexPosition g0 1"
    by (simp add: g_def)
  then have "m_hexDistance g = 90
         \<and> getHexPosition g 1
             = (i16 (sint cx + trunc (90 * cos (pi / 6))), i16 (sint cy + trunc (90 * sin (pi / 6))))
         \<and> trunc (90 * cos (pi / 6)) = 77 \<and> trunc (90 * sin (pi / 6)) = 45
         \<and> item_x (m_items g ! 1) = i16 (sint cx + 77)
         \<and> item_y (m_items g ! 1) = i16 (sint cy + 45)"
    using hex_position_1 [OF d] hex_position_1 [OF d0] d c c0
    by (simp add: trunc_90_cos30 trunc_90_sin30)
  then show ?thesis unfolding g_def g0_def .
qed

theorem index1_position_witness:
  "length seven_items = 7
   \<and> getHexPosition (foldl addItem (HexagonalGrid_new 180 180 40 10) seven_items) 1 = (257, 225)
   \<and> item_x (m_items (foldl addItem (HexagonalGrid_new 180 180 40 10) seven_items) ! 1) = 257
   \<and> item_y (m_items (foldl addItem (HexagonalGrid_new 180 180 40 10) seven_items) ! 1) = 225"
proof -
  have h: "length seven_items = 7" by (simp add: seven_items_def)
  show ?thesis
    using h index1_position [OF h, of 180 180] by (simp add: i16_def)
qed

text \<open>
  C3, as the specification has it, fails: around the centre \<open>(180, 180)\<close> the claimed
  position \<open>(180 + 90 sin 30\<degree>, 180 - 90 cos 30\<degree>)\<close>, about \<open>(225, 102.1)\<close>, is
  not where index 1 is put; the code puts it at \<open>(257, 225)\<close>.
\<close>

theorem index1_not_up_oriented:
  "sint (fst (getHexPosition (foldl addItem (HexagonalGrid_new 180 180 40 10) seven_items) 1)) = 257
   \<and> sint (snd (getHexPosition (foldl addItem (HexagonalGrid_new 180 180 40 10) seven_items) 1)) = 225
   \<and> \<not> (\<bar>real_of_int (sint (fst (getHexPosition
              (foldl addItem (HexagonalGrid_new 180 180 40 10) seven_items) 1)))
            - (180 + 90 * sin (pi / 6))\<bar> \<le> 1
         \<and> \<bar>real_of_int (sint (snd (getHexPosition
              (foldl addItem (HexagonalGrid_new 180 180 40 10) seven_items) 1)))
            - (180 - 90 * cos (pi / 6))\<bar> \<le> 1)"
proof -
  define g where "g = foldl addItem (HexagonalGrid_new 180 180 40 10) seven_items"
  have "m_hexDistance g = 90" "m_centerX_grid g = 180" "m_centerY_grid g = 180"
    using foldl_addItem_fields [of "HexagonalGrid_new 180 180 40 10" seven_items]
    by (simp_all add: g_def HexagonalGrid_new_def)
  then have "getHexPosition g 1 = (257, 225)"
    using hex_position_1 [of g] by (simp add: i16_def)
  then have "sint (fst (getHexPosition g 1)) = 257
   \<and> sint (snd (getHexPosition g 1)) = 225
   \<and> \<not> (\<bar>real_of_int (sint (fst (getHexPosition g 1))) - (180 + 90 * sin (pi / 6))\<bar> \<le> 1
         \<and> \<bar>real_of_int (sint (snd (getHexPosition g 1))) - (180 - 90 * cos (pi / 6))\<bar> \<le> 1)"
    by (simp add: sin_30)
  then show ?thesis unfolding g_def .
qed

lemma scan_items_Some:
  "scan_items g i its x y = Some k \<Longrightarrow>
   i \<le> k \<and> k < i + length its \<and> visible (its ! (k - i)) \<and> covers g (its ! (k - i)) x y"
proof (induction its arbitrary: i)
  case Nil
  then show ?case by simp
next
  case (Cons it its)
  show ?case
  proof (cases "visible it \<and> covers g it x y")
    case True
    with Cons.prems show ?thesis by auto
  next
    case False
    with Cons.prems have "scan_items g (Suc i) its x y = Some k"
      by (auto split: if_splits)
    from Cons.IH [OF this] show ?thesis by (auto simp: Suc_diff_le)
  qed
qed

lemma scan_items_None:
  "(\<forall>j < length its. \<not> (visible (its ! j) \<and> covers g (its ! j) x y))
   \<Longrightarrow> scan_items g i its x y = None"
proof (induction its arbitrary: i)
  case Nil
  then show ?case by simp
next
  case (Cons it its)
  from Cons.prems have "\<not> (visible it \<and> covers g it x y)" by auto
  moreover from Cons.prems have "\<forall>j < length its. \<not> (visible (its ! j) \<and> covers g (its ! j) x y)"
    by auto
  ultimately show ?case using Cons.IH by auto
qed

lemma addItem_new_item:
  "visible (m_items (addItem g it) ! length (m_items g)) = False"
  "onTap (m_items (addItem g it) ! length (m_items g)) = onTap it"
  using place_items_nth [of "length (m_items g)"
      "m_items g @ [it\<lparr>item_index := int (length (m_items g)), visible := False\<rparr>]" g 0]
  by (simp_all add: addItem_items)

text \<open>
  \<open>addItem\<close> appends the item with \<open>visible = false\<close>, and only \<open>render\<close> sets the
  flag again. Right after \<open>addItem\<close>, for every grid and every tap position (the new
  item's own position included), \<open>getItemAtPosition\<close> does not return the new item, and
  \<open>handleTap\<close> returns false and runs no callback when no other item is visible. The
  next \<open>render\<close> (with a sprite) makes the new item's flag what \<open>isItemVisible\<close> says.
\<close>

lemma addItem_hidden_until_render:
  "length (m_items (addItem g it)) = Suc (length (m_items g))
   \<and> \<not> visible (m_items (addItem g it) ! length (m_items g))
   \<and> getItemAtPosition (addItem g it) x y \<noteq> Some (length (m_items g))
   \<and> ((\<forall>i < length (m_items g). \<not> visible (m_items (addItem g it) ! i))
        \<longrightarrow> handleTap (addItem g it) x y = (False, None))
   \<and> visible (m_items (render (addItem g it) True) ! length (m_items g))
       = isItemVisible (addItem g it) (m_items (addItem g it) ! length (m_items g))"
proof -
  let ?g = "addItem g it" and ?n = "length (m_items g)"
  have len: "length (m_items ?g) = Suc ?n" by simp
  have inv: "\<not> visible (m_items ?g ! ?n)" by (simp add: addItem_new_item)
  have miss: "getItemAtPosition ?g x y \<noteq> Some ?n"
  proof
    assume "getItemAtPosition ?g x y = Some ?n"
    then have "visible (m_items ?g ! (?n - 0))"
      unfolding getItemAtPosition_def by (blast dest: scan_items_Some)
    with inv show False by simp
  qed
  have none: "handleTap ?g x y = (False, None)"
    if other: "\<forall>i < ?n. \<not> visible (m_items ?g ! i)"
  proof -
    have "\<forall>j < length (m_items ?g). \<not> (visible (m_items ?g ! j) \<and> covers ?g (m_items ?g ! j) x y)"
      using other inv len by (auto simp: less_Suc_eq)
    then have "getItemAtPosition ?g x y = None"
      unfolding getItemAtPosition_def by (rule scan_items_None)
    then show ?thesis by (simp add: handleTap_def)
  qed
  have rend: "visible (m_items (render ?g True) ! ?n) = isItemVisible ?g (m_items ?g ! ?n)"
    using len by (simp add: render_def)
  show ?thesis using len inv miss none rend by blast
qed

lemma floor_90_sqrt3: "\<lfloor>90 * sqrt 3\<rfloor> = 155"
proof -
  have "(155 / 90)\<^sup>2 \<le> (3::real)" by (simp add: power2_eq_square)
  then have lo: "155 / 90 \<le> sqrt 3" by (rule real_le_rsqrt)
  have "(3::real) < (156 / 90)\<^sup>2" by (simp add: power2_eq_square)
  then have hi: "sqrt 3 < 156 / 90" by (intro real_less_lsqrt) simp_all
  show ?thesis using lo hi by (simp add: floor_eq_iff)
qed

lemma ceiling_45_sqrt3: "\<lceil>- (45 * sqrt 3)\<rceil> = - 77"
  using floor_45_sqrt3 by (simp add: ceiling_def)

lemma ring_trig:
  "cos (5 * pi / 6) = - (sqrt 3 / 2)" "sin (5 * pi / 6) = 1 / 2"
  "cos (7 * pi / 6) = - (sqrt 3 / 2)" "sin (7 * pi / 6) = - (1 / 2)"
  "cos (3 * pi / 2) = 0" "sin (3 * pi / 2) = - 1"
  "cos (11 * pi / 6) = sqrt 3 / 2" "sin (11 * pi / 6) = - (1 / 2)"
proof -
  have e: "5 * pi / 6 = pi - pi / 6" "7 * pi / 6 = pi + pi / 6" "3 * pi / 2 = 3 / 2 * pi"
    "11 * pi / 6 = 2 * pi - pi / 6"
    by simp_all
  show "cos (5 * pi / 6) = - (sqrt 3 / 2)" "sin (5 * pi / 6) = 1 / 2"
    unfolding e by (simp_all only: cos_pi_minus sin_pi_minus cos_30 sin_30)
  show "cos (7 * pi / 6) = - (sqrt 3 / 2)" "sin (7 * pi / 6) = - (1 / 2)"
    unfolding e by (simp_all only: cos_periodic_pi2 sin_periodic_pi2 cos_30 sin_30)
  show "cos (3 * pi / 2) = 0" "sin (3 * pi / 2) = - 1"
    unfolding e by (simp_all only: cos_3over2_pi sin_3over2_pi)
  show "cos (11 * pi / 6) = sqrt 3 / 2" "sin (11 * pi / 6) = - (1 / 2)"
    unfolding e by (simp_all only: cos_2pi_minus sin_2pi_minus cos_30 sin_30)
qed

lemma ring_offsets:
  "trunc (90 * cos (5 * pi / 6)) = - 77" "trunc (90 * sin (5 * pi / 6)) = 45"
  "trunc (90 * cos (7 * pi / 6)) = - 77" "trunc (90 * sin (7 * pi / 6)) = - 45"
  "trunc (90 * cos (3 * pi / 2)) = 0" "trunc (90 * sin (3 * pi / 2)) = - 90"
  "trunc (90 * cos (11 * pi / 6)) = 77" "trunc (90 * sin (11 * pi / 6)) = - 45"
  "trunc (180 * cos (pi / 6)) = 155" "trunc (180 * sin (pi / 6)) = 90"
  using floor_45_sqrt3 ceiling_45_sqrt3 floor_90_sqrt3
  by (simp_all add: trunc_def ring_trig cos_30 sin_30)

lemma ring_search_values:
  "ring_search 0 2 0 0 = (1, 1)" "ring_search 0 3 0 0 = (1, 1)" "ring_search 0 4 0 0 = (1, 1)"
  "ring_search 0 5 0 0 = (1, 1)" "ring_search 0 6 0 0 = (1, 1)" "ring_search 0 7 0 0 = (2, 7)"
  by (simp_all add: ring_search.simps RING_ITEMS_def)

lemma getHexPosition_ring:
  assumes "index \<noteq> 0" and "ring_search 0 index 0 0 = (ring, before)"
    and "(2 * pi * real_of_int (index - before)) / real_of_int (RING_ITEMS ! ring) + pi / 6 = a"
    and "trunc (real ring * m_hexDistance g * cos a) = ox"
    and "trunc (real ring * m_hexDistance g * sin a) = oy"
  shows "getHexPosition g index
         = (i16 (sint (m_centerX_grid g) + sint (i16 ox)),
            i16 (sint (m_centerY_grid g) + sint (i16 oy)))"
  unfolding getHexPosition_def Let_def assms(2) prod.case assms(3) assms(4) assms(5)
  using assms(1) by simp

lemma hex_positions:
  assumes "m_centerX_grid g = 180" "m_centerY_grid g = 180" "m_hexDistance g = 90"
  shows "getHexPosition g 0 = (180, 180)" "getHexPosition g 1 = (257, 225)"
    "getHexPosition g 2 = (180, 270)" "getHexPosition g 3 = (103, 225)"
    "getHexPosition g 4 = (103, 135)" "getHexPosition g 5 = (180, 90)"
    "getHexPosition g 6 = (257, 135)" "getHexPosition g 7 = (335, 270)"
proof -
  show "getHexPosition g 0 = (180, 180)" by (simp add: getHexPosition_def assms)
  show "getHexPosition g 1 = (257, 225)"
    using hex_position_1 [OF assms(3)] by (simp add: assms i16_def)
  show "getHexPosition g 2 = (180, 270)"
    by (subst getHexPosition_ring [OF _ ring_search_values(1), of "pi / 2" g 0 90])
      (simp_all add: RING_ITEMS_def assms trunc_def i16_def)
  show "getHexPosition g 3 = (103, 225)"
    by (subst getHexPosition_ring [OF _ ring_search_values(2), of "5 * pi / 6" g "- 77" 45])
      (simp_all add: RING_ITEMS_def assms ring_offsets i16_def)
  show "getHexPosition g 4 = (103, 135)"
    by (subst getHexPosition_ring [OF _ ring_search_values(3), of "7 * pi / 6" g "- 77" "- 45"])
      (simp_all add: RING_ITEMS_def assms ring_offsets i16_def)
  show "getHexPosition g 5 = (180, 90)"
    by (subst getHexPosition_ring [OF _ ring_search_values(4), of "3 * pi / 2" g 0 "- 90"])
      (simp_all add: RING_ITEMS_def assms ring_offsets i16_def)
  show "getHexPosition g 6 = (257, 135)"
    by (subst getHexPosition_ring [OF _ ring_search_values(5), of "11 * pi / 6" g 77 "- 45"])
      (simp_all add: RING_ITEMS_def assms ring_offsets i16_def)
  show "getHexPosition g 7 = (335, 270)"
    by (subst getHexPosition_ring [OF _ ring_search_values(6), of "pi / 6" g 155 90])
      (simp_all add: RING_ITEMS_def assms ring_offsets i16_def)
qed


lemma demo_grid_fields:
  "m_items demo_grid = []" "m_centerX_grid demo_grid = 180" "m_centerY_grid demo_grid = 180"
  "m_hexDistance demo_grid = 90" "m_itemRadius demo_grid = 40"
  "m_scrollOffsetX demo_grid = 0" "m_scrollOffsetY demo_grid = 0"
  by (simp_all add: demo_grid_def HexagonalGrid_new_def)

lemma render_fields [simp]:
  "m_centerX_grid (render g b) = m_centerX_grid g"
  "m_centerY_grid (render g b) = m_centerY_grid g"
  "m_hexDistance (render g b) = m_hexDistance g"
  "m_itemRadius (render g b) = m_itemRadius g"
  "m_scrollOffsetX (render g b) = m_scrollOffsetX g"
  "m_scrollOffsetY (render g b) = m_scrollOffsetY g"
  by (simp_all add: render_def)

lemma demo_grid7_items:
  "m_items demo_grid7 =
     [\<lparr>label = [], backgroundColor = 0, onTap = Some 0, item_x = 180, item_y = 180,
       item_index = 0, visible = True\<rparr>,
      \<lparr>label = [], backgroundColor = 0, onTap = Some 1, item_x = 257, item_y = 225,
       item_index = 1, visible = True\<rparr>,
      \<lparr>label = [], backgroundColor = 0, onTap = Some 2, item_x = 180, item_y = 270,
       item_index = 2, visible = True\<rparr>,
      \<lparr>label = [], backgroundColor = 0, onTap = Some 3, item_x = 103, item_y = 225,
       item_index = 3, visible = True\<rparr>,
      \<lparr>label = [], backgroundColor = 0, onTap = Some 4, item_x = 103, item_y = 135,
       item_index = 4, visible = True\<rparr>,
      \<lparr>label = [], backgroundColor = 0, onTap = Some 5, item_x = 180, item_y = 90,
       item_index = 5, visible = True\<rparr>,
      \<lparr>label = [], backgroundColor = 0, onTap = Some 6, item_x = 257, item_y = 135,
       item_index = 6, visible = True\<rparr>]"
  by (simp add: demo_grid7_def render_def addItem_items hex_positions demo_grid_fields
        tagged_item_def isItemVisible_def SCREEN_WIDTH_def SCREEN_HEIGHT_def)

lemma demo_grid7_fields:
  "m_centerX_grid demo_grid7 = 180" "m_centerY_grid demo_grid7 = 180"
  "m_hexDistance demo_grid7 = 90" "m_itemRadius demo_grid7 = 40"
  "m_scrollOffsetX demo_grid7 = 0" "m_scrollOffsetY demo_grid7 = 0"
  by (simp_all add: demo_grid7_def foldl_addItem_fields demo_grid_fields)

lemma demo_grid8_items:
  "m_items demo_grid8 =
     [\<lparr>label = [], backgroundColor = 0, onTap = Some 0, item_x = 180, item_y = 180,
       item_index = 0, visible = True\<rparr>,
      \<lparr>label = [], backgroundColor = 0, onTap = Some 1, item_x = 257, item_y = 225,
       item_index = 1, visible = True\<rparr>,
      \<lparr>label = [], backgroundColor = 0, onTap = Some 2, item_x = 180, item_y = 270,
       item_index = 2, visible = True\<rparr>,
      \<lparr>label = [], backgroundColor = 0, onTap = Some 3, item_x = 103, item_y = 225,
       item_index = 3, visible = True\<rparr>,
      \<lparr>label = [], backgroundColor = 0, onTap = Some 4, item_x = 103, item_y = 135,
       item_index = 4, visible = True\<rparr>,
      \<lparr>label = [], backgroundColor = 0, onTap = Some 5, item_x = 180, item_y = 90,
       item_index = 5, visible = True\<rparr>,
      \<lparr>label = [], backgroundColor = 0, onTap = Some 6, item_x = 257, item_y = 135,
       item_index = 6, visible = True\<rparr>,
      \<lparr>label = [], backgroundColor = 0, onTap = Some 7, item_x = 335, item_y = 270,
       item_index = 7, visible = False\<rparr>]"
  by (simp add: demo_grid8_def addItem_items demo_grid7_items hex_positions demo_grid7_fields
        tagged_item_def)

lemma demo_grid8_fields:
  "m_itemRadius demo_grid8 = 40" "m_scrollOffsetX demo_grid8 = 0"
  "m_scrollOffsetY demo_grid8 = 0"
  by (simp_all add: demo_grid8_def demo_grid7_fields)

text \<open>
  C9. The new item is hidden until the next \<open>render\<close>, but a tap at its position can
  select an item far away. The grid \<open>demo_grid8\<close> is centred at \<open>(180, 180)\<close> with item
  radius 40 and spacing 10; its first seven items are rendered and visible, the eighth
  was added after the \<open>render\<close> and is at \<open>(335, 270)\<close>, invisible. No visible item has
  \<open>(335, 270)\<close> within its circle. Yet \<open>getItemAtPosition\<close> returns item 3, at
  \<open>(103, 225)\<close>, and \<open>handleTap\<close> runs its callback and returns true: the squared
  distance \<open>232 * 232 + 45 * 45 = 55849\<close> is stored in the \<open>int16_t\<close> \<open>distSquared\<close> as
  \<open>-9687\<close>, which is below \<open>40 * 40\<close>.
\<close>

theorem tap_hits_distant_item:
  "map (\<lambda>it. (sint (item_x it), sint (item_y it), visible it)) (m_items demo_grid8)
     = [(180, 180, True), (257, 225, True), (180, 270, True), (103, 225, True),
        (103, 135, True), (180, 90, True), (257, 135, True), (335, 270, False)]
   \<and> list_all (\<lambda>it. \<not> within_item_circle demo_grid8 it 335 270)
        (filter visible (m_items demo_grid8))
   \<and> covers demo_grid8 (m_items demo_grid8 ! 3) 335 270
   \<and> getItemAtPosition demo_grid8 335 270 = Some 3
   \<and> handleTap demo_grid8 335 270 = (True, Some 3)"
proof -
  have c: "\<not> covers demo_grid8 (m_items demo_grid8 ! 0) 335 270"
    "\<not> covers demo_grid8 (m_items demo_grid8 ! 1) 335 270"
    "\<not> covers demo_grid8 (m_items demo_grid8 ! 2) 335 270"
    "covers demo_grid8 (m_items demo_grid8 ! 3) 335 270"
    by (simp_all add: covers_def Let_def demo_grid8_items demo_grid8_fields i16_def)
  have g: "getItemAtPosition demo_grid8 335 270 = Some 3"
    using c by (simp add: getItemAtPosition_def demo_grid8_items)
  show ?thesis
    using c(4) g
    by (simp add: handleTap_def within_item_circle_def Let_def demo_grid8_fields)
      (simp add: demo_grid8_items)
qed

section \<open>Properties of the rounding\<close>

lemma rne_of_int [simp]: "rne (of_int n) = n"
  by (simp add: rne_def)

lemma rne_floor: "\<lfloor>x\<rfloor> \<le> rne x"
  by (simp add: rne_def Let_def)

lemma rne_ceil: "rne x \<le> \<lfloor>x\<rfloor> + 1"
  by (simp add: rne_def Let_def)

lemma rne_mono: assumes "x \<le> y" shows "rne x \<le> rne y"
proof (cases "\<lfloor>x\<rfloor> = \<lfloor>y\<rfloor>")
  case False
  then have "\<lfloor>x\<rfloor> < \<lfloor>y\<rfloor>" using assms floor_mono [of x y] by simp
  then show ?thesis using rne_ceil [of x] rne_floor [of y] by linarith
next
  case True
  then show ?thesis using assms by (auto simp: rne_def Let_def)
qed

lemma expo_bounds:
  assumes "x \<noteq> 0"
  shows "2 powr real_of_int (expo x) \<le> \<bar>x\<bar>" and "\<bar>x\<bar> < 2 powr (real_of_int (expo x) + 1)"
proof -
  have pos: "0 < \<bar>x\<bar>" using assms by simp
  have "real_of_int (expo x) \<le> log 2 \<bar>x\<bar>" by (simp add: expo_def)
  then have "2 powr real_of_int (expo x) \<le> 2 powr log 2 \<bar>x\<bar>" by (simp only: powr_le_cancel_iff) 
  then show "2 powr real_of_int (expo x) \<le> \<bar>x\<bar>" using pos by simp
  have "log 2 \<bar>x\<bar> < real_of_int (expo x) + 1" by (simp add: expo_def)
  then have "2 powr log 2 \<bar>x\<bar> < 2 powr (real_of_int (expo x) + 1)" by (simp only: powr_less_cancel_iff)
  then show "\<bar>x\<bar> < 2 powr (real_of_int (expo x) + 1)" using pos by simp
qed

lemma expo_unique:
  assumes "2 powr real_of_int e \<le> \<bar>x\<bar>" and "\<bar>x\<bar> < 2 powr (real_of_int e + 1)"
  shows "expo x = e"
proof -
  have pos: "0 < \<bar>x\<bar>" using assms(1) powr_gt_zero [of 2 "real_of_int e"] by linarith
  have "real_of_int e \<le> log 2 \<bar>x\<bar>"
    using assms(1) pos by (simp add: le_log_iff)
  moreover have "log 2 \<bar>x\<bar> < real_of_int e + 1"
    using assms(2) pos by (simp add: log_less_iff)
  ultimately show ?thesis unfolding expo_def by (simp add: floor_eq_iff)
qed


lemma ulp_pos: "0 < ulp x"
  by (simp add: ulp_def)

lemma ulp_scale: "ulp x * 8388608 = 2 powr real_of_int (expo x)"
proof -
  have "(2::real) powr (real_of_int (expo x) - 23) * 2 powr 23 = 2 powr real_of_int (expo x)"
    by (simp only: powr_add [symmetric]) simp
  then show ?thesis by (simp add: ulp_def)
qed

lemma mant_bounds:
  assumes "x \<noteq> 0"
  shows "8388608 \<le> \<bar>x\<bar> / ulp x" and "\<bar>x\<bar> / ulp x < 16777216"
proof -
  have "ulp x * 8388608 \<le> \<bar>x\<bar>"
    using expo_bounds(1) [OF assms] by (simp add: ulp_scale)
  then show "8388608 \<le> \<bar>x\<bar> / ulp x"
    using ulp_pos [of x] by (simp add: pos_le_divide_eq mult.commute)
  have "2 powr (real_of_int (expo x) + 1) = 2 powr real_of_int (expo x) * 2"
    by (simp add: powr_add)
  then have "\<bar>x\<bar> < ulp x * 16777216"
    using expo_bounds(2) [OF assms] ulp_scale [of x] by simp
  then show "\<bar>x\<bar> / ulp x < 16777216"
    using ulp_pos [of x] by (simp add: pos_divide_less_eq mult.commute)
qed

lemma rne_mant:
  assumes "x \<noteq> 0"
  shows "8388608 \<le> rne (\<bar>x\<bar> / ulp x)" and "rne (\<bar>x\<bar> / ulp x) \<le> 16777216"
proof -
  have "rne (real_of_int 8388608) \<le> rne (\<bar>x\<bar> / ulp x)"
    using mant_bounds(1) [OF assms] by (intro rne_mono) simp
  then show "8388608 \<le> rne (\<bar>x\<bar> / ulp x)" by (simp only: rne_of_int)
  have "rne (\<bar>x\<bar> / ulp x) \<le> rne (real_of_int 16777216)"
    using mant_bounds(2) [OF assms] by (intro rne_mono) simp
  then show "rne (\<bar>x\<bar> / ulp x) \<le> 16777216" by (simp only: rne_of_int)
qed

lemma rnd32_rmag: "rnd32 x = sgn x * rmag x"
  by (simp add: rnd32_def rmag_def)

lemma rmag_bounds:
  assumes "x \<noteq> 0"
  shows "2 powr real_of_int (expo x) \<le> rmag x" and "rmag x \<le> 2 powr (real_of_int (expo x) + 1)"
proof -
  have "8388608 * ulp x \<le> real_of_int (rne (\<bar>x\<bar> / ulp x)) * ulp x"
    using rne_mant(1) [OF assms] ulp_pos [of x] by (intro mult_right_mono) simp_all
  then show "2 powr real_of_int (expo x) \<le> rmag x"
    using ulp_scale [of x] by (simp add: rmag_def mult.commute)
  have "real_of_int (rne (\<bar>x\<bar> / ulp x)) * ulp x \<le> 16777216 * ulp x"
    using rne_mant(2) [OF assms] ulp_pos [of x] by (intro mult_right_mono) simp_all
  moreover have "2 powr (real_of_int (expo x) + 1) = 16777216 * ulp x"
    using ulp_scale [of x] by (simp add: powr_add)
  ultimately show "rmag x \<le> 2 powr (real_of_int (expo x) + 1)"
    by (simp add: rmag_def)
qed

lemma rmag_pos: "x \<noteq> 0 \<Longrightarrow> 0 < rmag x"
  using rmag_bounds(1) [of x] powr_gt_zero [of 2 "real_of_int (expo x)"] by linarith

lemma rmag_zero [simp]: "rmag 0 = 0"
  by (simp add: rmag_def rne_def)

lemma expo_mono:
  assumes "0 < \<bar>x\<bar>" "\<bar>x\<bar> \<le> \<bar>y\<bar>"
  shows "expo x \<le> expo y"
  unfolding expo_def using assms by (intro floor_mono) simp

lemma rmag_mono:
  assumes "\<bar>x\<bar> \<le> \<bar>y\<bar>"
  shows "rmag x \<le> rmag y"
proof (cases "x = 0")
  case True
  then show ?thesis using rmag_pos [of y] by (cases "y = 0") (simp_all add: less_imp_le)
next
  case False
  then have y: "y \<noteq> 0" using assms by auto
  have le: "expo x \<le> expo y" using False assms by (intro expo_mono) simp_all
  show ?thesis
  proof (cases "expo x = expo y")
    case True
    then have u: "ulp x = ulp y" by (simp add: ulp_def)
    have "\<bar>x\<bar> / ulp y \<le> \<bar>y\<bar> / ulp y"
      using assms ulp_pos [of y] by (simp add: divide_right_mono)
    then have "rne (\<bar>x\<bar> / ulp y) \<le> rne (\<bar>y\<bar> / ulp y)" by (rule rne_mono)
    then show ?thesis
      using ulp_pos [of y] by (simp add: rmag_def u mult_right_mono)
  next
    case False
    with le have "expo x + 1 \<le> expo y" by simp
    then have "real_of_int (expo x) + 1 \<le> real_of_int (expo y)" by linarith
    then have "(2::real) powr (real_of_int (expo x) + 1) \<le> 2 powr real_of_int (expo y)"
      by (simp only: powr_le_cancel_iff) 
    then show ?thesis
      using rmag_bounds(2) [OF \<open>x \<noteq> 0\<close>] rmag_bounds(1) [OF y] by linarith
  qed
qed

lemma rnd32_mono:
  assumes "x \<le> y"
  shows "rnd32 x \<le> rnd32 y"
proof -
  have nn: "0 \<le> rmag z" for z using rmag_pos [of z] by (cases "z = 0") (simp_all add: less_imp_le)
  consider "0 \<le> x" | "x < 0" "0 \<le> y" | "y < 0" by linarith
  then show ?thesis
  proof cases
    case 1
    then have "\<bar>x\<bar> \<le> \<bar>y\<bar>" using assms by simp
    from rmag_mono [OF this] show ?thesis
      using 1 assms by (cases "x = 0"; cases "y = 0") (simp_all add: rnd32_rmag sgn_if nn)
  next
    case 2
    then show ?thesis using nn [of x] nn [of y] by (simp add: rnd32_rmag sgn_if)
  next
    case 3
    then have "\<bar>y\<bar> \<le> \<bar>x\<bar>" using assms by simp
    from rmag_mono [OF this] show ?thesis
      using 3 assms by (simp add: rnd32_rmag sgn_if)
  qed
qed

lemma rnd32_eq_0: "rnd32 x = 0 \<Longrightarrow> x = 0"
  using rmag_pos [of x] by (auto simp: rnd32_rmag sgn_if split: if_splits)

lemma rnd32_eval:
  assumes "2 powr real_of_int e \<le> \<bar>x\<bar>" and "\<bar>x\<bar> < 2 powr (real_of_int e + 1)"
  shows "rnd32 x = sgn x * (real_of_int (rne (\<bar>x\<bar> / 2 powr (real_of_int e - 23)))
                           * 2 powr (real_of_int e - 23))"
  using expo_unique [OF assms] by (simp add: rnd32_def ulp_def)

lemma rnd32_idem: "rnd32 (rnd32 x) = rnd32 x"
proof (cases "x = 0")
  case True
  then show ?thesis by (simp add: rnd32_rmag)
next
  case False
  define k where "k = rne (\<bar>x\<bar> / ulp x)"
  define r where "r = rmag x"
  have r: "r = real_of_int k * ulp x" by (simp add: r_def k_def rmag_def)
  have rpos: "0 < r" unfolding r_def using False by (rule rmag_pos)
  have k: "8388608 \<le> k" "k \<le> 16777216" using rne_mant [OF False] by (simp_all add: k_def)
  have "rmag r = r"
  proof (cases "k = 16777216")
    case True
    then have rv: "r = 2 powr (real_of_int (expo x + 1))"
      using ulp_scale [of x] by (simp add: r powr_add)
    have "\<bar>r\<bar> < 2 powr (real_of_int (expo x + 1) + 1)"
      by (simp add: rv)
    then have e: "expo r = expo x + 1"
      using rv by (intro expo_unique) simp_all
    have "(2::real) powr (real_of_int (expo x) - 23 + 1) = 2 powr (real_of_int (expo x) - 23) * 2"
      by (simp only: powr_add) simp
    then have u: "ulp r = 2 * ulp x"
      by (simp add: ulp_def e)
    have ra: "\<bar>r\<bar> = 16777216 * ulp x" using rpos True by (simp add: r)
    have "\<bar>r\<bar> / ulp r = (16777216 * ulp x) / (2 * ulp x)" by (simp only: ra u)
    also have "\<dots> = real_of_int 8388608" using ulp_pos [of x] by simp
    finally have "rne (\<bar>r\<bar> / ulp r) = 8388608" by (simp only: rne_of_int)
    then have "rmag r = 8388608 * (2 * ulp x)" by (simp add: rmag_def u)
    then show ?thesis using True by (simp add: r)
  next
    case False
    with k have lt: "k < 16777216" by simp
    have lo: "2 powr real_of_int (expo x) \<le> \<bar>r\<bar>"
      using rmag_bounds(1) [OF \<open>x \<noteq> 0\<close>] rpos by (simp add: r_def)
    have "real_of_int k * ulp x < 16777216 * ulp x"
      using lt ulp_pos [of x] by (intro mult_strict_right_mono) simp_all
    moreover have "2 powr (real_of_int (expo x) + 1) = 16777216 * ulp x"
      using ulp_scale [of x] by (simp add: powr_add)
    ultimately have hi: "\<bar>r\<bar> < 2 powr (real_of_int (expo x) + 1)"
      using rpos by (simp add: r)
    have e: "expo r = expo x" using lo hi by (rule expo_unique)
    then have u: "ulp r = ulp x" by (simp add: ulp_def)
    have ra: "\<bar>r\<bar> = real_of_int k * ulp x" using rpos by (simp add: r)
    have "\<bar>r\<bar> / ulp r = (real_of_int k * ulp x) / ulp x" by (simp only: ra u)
    also have "\<dots> = real_of_int k" using ulp_pos [of x] by simp
    finally have "rne (\<bar>r\<bar> / ulp r) = k" by (simp only: rne_of_int)
    then have "rmag r = real_of_int k * ulp x" by (simp only: rmag_def u)
    then show ?thesis by (simp add: r)
  qed
  moreover have "sgn (sgn x * r) = sgn x" using rpos False by (simp add: sgn_if)
  moreover have "rmag (sgn x * r) = rmag r"
    using False by (simp add: rmag_def ulp_def expo_def abs_mult sgn_if)
  ultimately show ?thesis
    by (simp add: rnd32_rmag r_def [symmetric])
qed

lemma rnd32_zero [simp]: "rnd32 0 = 0"
  by (simp add: rnd32_rmag)

lemma rnd32_exact:
  assumes "2 powr real_of_int e \<le> \<bar>x\<bar>" and "\<bar>x\<bar> < 2 powr (real_of_int e + 1)"
    and "\<bar>x\<bar> / 2 powr (real_of_int e - 23) = real_of_int k"
  shows "rnd32 x = x"
proof -
  have "\<bar>x\<bar> = real_of_int k * 2 powr (real_of_int e - 23)"
    using assms(3) by (simp add: field_simps)
  then have "rnd32 x = sgn x * \<bar>x\<bar>"
    unfolding rnd32_eval [OF assms(1, 2)] assms(3) by simp
  then show ?thesis by (simp add: sgn_if)
qed

lemma rnd32_consts [simp]:
  "rnd32 1 = 1" "rnd32 10 = 10" "rnd32 (- 10) = - 10" "rnd32 100 = 100" "rnd32 270 = 270"
proof -
  show "rnd32 1 = 1"
    by (rule rnd32_exact [of 0 _ 8388608]) (simp_all add: powr_neg_numeral)
  show "rnd32 10 = 10"
    by (rule rnd32_exact [of 3 _ 10485760]) (simp_all add: powr_neg_numeral)
  show "rnd32 (- 10) = - 10"
    by (rule rnd32_exact [of 3 _ 10485760]) (simp_all add: powr_neg_numeral)
  show "rnd32 100 = 100"
    by (rule rnd32_exact [of 6 _ 13107200]) (simp_all add: powr_neg_numeral)
  show "rnd32 270 = 270"
    by (rule rnd32_exact [of 8 _ 8847360]) (simp_all add: powr_neg_numeral)
qed

lemma rounding_rnd32: "rounding rnd32"
proof -
  have "a = b" if "rnd32 (a - b) = 0" for a b
    using rnd32_eq_0 [OF that] by simp
  then show ?thesis
    unfolding rounding_def using rnd32_mono rnd32_idem by auto
qed


section \<open>Properties of the CircularSlider\<close>

lemma add360_loop_sint: "sint (add360_loop a) = (if sint a < 0 then sint a mod 360 else sint a)"
proof (induction a rule: add360_loop.induct)
  case (1 angle)
  show ?case
  proof (cases "sint angle < 0")
    case True
    have s: "sint (i16 (sint angle + 360)) = sint angle + 360"
      using True sint_ge16 [of angle] by simp
    have "sint (add360_loop angle) = sint (add360_loop (i16 (sint angle + 360)))"
      using True by (subst add360_loop.simps) simp
    also have "\<dots> = (if sint angle + 360 < 0 then (sint angle + 360) mod 360 else sint angle + 360)"
      using "1.IH" [OF True] s by simp
    also have "\<dots> = sint angle mod 360"
    proof (cases "sint angle + 360 < 0")
      case True
      then show ?thesis by simp
    next
      case False
      with \<open>sint angle < 0\<close> have "0 \<le> sint angle + 360" "sint angle + 360 < 360" by simp_all
      then have "(sint angle + 360) mod 360 = sint angle + 360" by (rule mod_pos_pos_trivial)
      moreover have "(sint angle + 360) mod 360 = sint angle mod 360" by simp
      ultimately show ?thesis using False by simp
    qed
    finally show ?thesis using True by simp
  next
    case False
    then show ?thesis by (subst add360_loop.simps) simp
  qed
qed

lemma sub360_loop_sint: "0 \<le> sint a \<Longrightarrow> sint (sub360_loop a) = sint a mod 360"
proof (induction a rule: sub360_loop.induct)
  case (1 angle)
  show ?case
  proof (cases "360 \<le> sint angle")
    case True
    have s: "sint (i16 (sint angle - 360)) = sint angle - 360"
      using True sint_lt16 [of angle] by simp
    have "sint (sub360_loop angle) = sint (sub360_loop (i16 (sint angle - 360)))"
      using True by (subst sub360_loop.simps) simp
    also have "\<dots> = (sint angle - 360) mod 360"
      using "1.IH" [OF True] s True by simp
    also have "\<dots> = sint angle mod 360" by simp
    finally show ?thesis .
  next
    case False
    with "1.prems" show ?thesis by (subst sub360_loop.simps) simp
  qed
qed

lemma normalizeAngle_sint: "sint (normalizeAngle a) = sint a mod 360"
proof -
  have "0 \<le> sint (add360_loop a)" by (simp add: add360_loop_sint)
  then have "sint (normalizeAngle a) = sint (add360_loop a) mod 360"
    unfolding normalizeAngle_def by (rule sub360_loop_sint)
  then show ?thesis by (simp add: add360_loop_sint)
qed

lemma store_in_sweep:
  assumes "0 \<le> r" "r \<le> 270"
  shows "0 \<le> sint (normalizeAngle (i16 (135 + r)))"
    and "sint (normalizeAngle (i16 (135 + r))) < 360"
    and "(sint (normalizeAngle (i16 (135 + r))) - 135) mod 360 = r"
proof -
  have s: "sint (normalizeAngle (i16 (135 + r))) = (135 + r) mod 360"
    using assms by (simp add: normalizeAngle_sint)
  show "0 \<le> sint (normalizeAngle (i16 (135 + r)))"
    and "sint (normalizeAngle (i16 (135 + r))) < 360"
    by (simp_all add: s)
  have "((135 + r) mod 360 - 135) mod 360 = (135 + r - 135) mod 360"
    by (rule mod_diff_left_eq)
  also have "\<dots> = r" using assms by simp
  finally show "(sint (normalizeAngle (i16 (135 + r))) - 135) mod 360 = r"
    by (simp add: s)
qed

lemma relativeAngle_sint:
  assumes "m_startAngle s = 135" "0 \<le> sint a" "sint a < 360"
  shows "sint (relativeAngle s a) = (sint a - 135) mod 360"
proof (cases "135 \<le> sint a")
  case True
  then have "(sint a - 135) mod 360 = sint a - 135"
    using assms(3) by (intro mod_pos_pos_trivial) simp_all
  then show ?thesis using True assms by (simp add: relativeAngle_def)
next
  case False
  have "(sint a - 135) mod 360 = (sint a - 135 + 360) mod 360"
    by (simp only: mod_add_self2)
  also have "\<dots> = sint a - 135 + 360"
    using False assms(2) by (intro mod_pos_pos_trivial) simp_all
  finally show ?thesis using False assms by (simp add: relativeAngle_def)
qed

lemma snapAngle_range:
  assumes "0 \<le> sint rel"
  shows "0 \<le> sint (snapAngle rel) \<and> sint (snapAngle rel) \<le> 270"
  using assms by (simp add: snapAngle_def)

lemma touchAngleDeg_range:
  "0 \<le> sint (touchAngleDeg s x y) \<and> sint (touchAngleDeg s x y) < 360"
  by (simp add: touchAngleDeg_def Let_def normalizeAngle_sint)

lemma calculateAngleFromTouch_in_sweep:
  assumes "m_startAngle s = 135"
  shows "in_sweep (calculateAngleFromTouch s x y)"
proof -
  let ?raw = "relativeAngle s (touchAngleDeg s x y)"
  have "0 \<le> sint ?raw"
    using relativeAngle_sint [OF assms] touchAngleDeg_range [of s x y] by simp
  then have r: "0 \<le> sint (snapAngle ?raw)" "sint (snapAngle ?raw) \<le> 270"
    using snapAngle_range by blast+
  show ?thesis
    using store_in_sweep [OF r] r assms
    by (simp add: in_sweep_def calculateAngleFromTouch_def Let_def)
qed



lemma contains_dist_sq:
  "contains s x y \<longleftrightarrow>
     real_of_int (sint (m_innerRadius s)) \<le> sqrt (real_of_int (dist_sq s x y))
     \<and> sqrt (real_of_int (dist_sq s x y)) \<le> real_of_int (sint (m_radius s))"
  by (simp add: contains_def distance_def dist_sq_def Let_def del: of_int_sint)

lemma right_of_centre:
  assumes st: "m_startAngle s = 135" and d: "0 \<le> d" "d \<le> sint (m_radius s)"
    and i: "sint (m_innerRadius s) \<le> d" and x: "sint (m_centerX s) + d < 32768"
  shows "contains s (i16 (sint (m_centerX s) + d)) (m_centerY s)"
    and "snaps s (i16 (sint (m_centerX s) + d)) (m_centerY s)"
proof -
  let ?x = "i16 (sint (m_centerX s) + d)"
  have sx: "sint ?x = sint (m_centerX s) + d"
    using d(1) x sint_ge16 [of "m_centerX s"] by simp
  have d16: "d < 32768" using d(2) sint_lt16 [of "m_radius s"] by simp
  have dx: "sint (i16 (sint ?x - sint (m_centerX s))) = d"
    using d(1) d16 by (simp add: sx)
  have dy: "sint (i16 (sint (m_centerY s) - sint (m_centerY s))) = 0"
    by simp
  have "dist_sq s ?x (m_centerY s) = d * d"
    unfolding dist_sq_def Let_def dx dy by simp
  moreover have "sqrt (real_of_int (d * d)) = real_of_int d"
    using d(1) by simp
  ultimately show "contains s ?x (m_centerY s)"
    using d(2) i by (simp add: contains_dist_sq del: of_int_sint)
  have n: "normalizeAngle 90 = 90"
    by (simp add: normalizeAngle_def add360_loop.simps sub360_loop.simps)
  have "touchAngleDeg s ?x (m_centerY s) = 90"
    unfolding touchAngleDeg_def Let_def dx dy
    using d(1) by (simp add: atan2_def trunc_def i16_def n)
  then show "snaps s ?x (m_centerY s)"
    by (simp add: snaps_def relativeAngle_def st i16_def)
qed


lemma demo_touch:
  "touchAngleDeg demo_slider 280 180 = 90"
  "touchAngleDeg demo_slider 180 280 = 180"
  "sint (relativeAngle demo_slider 90) = 315"
  "sint (relativeAngle demo_slider 180) = 45"
proof -
  have n: "normalizeAngle 90 = 90" "normalizeAngle 180 = 180"
    by (simp_all add: normalizeAngle_def add360_loop.simps sub360_loop.simps)
  show "touchAngleDeg demo_slider 280 180 = 90"
    by (simp add: touchAngleDeg_def demo_slider_def CircularSlider_new_def atan2_def
          trunc_def i16_def n)
  show "touchAngleDeg demo_slider 180 280 = 180"
    by (simp add: touchAngleDeg_def demo_slider_def CircularSlider_new_def atan2_def
          trunc_def i16_def n RAD_TO_DEG_def)
  show "sint (relativeAngle demo_slider 90) = 315"
    "sint (relativeAngle demo_slider 180) = 45"
    by (simp_all add: relativeAngle_def demo_slider_def CircularSlider_new_def i16_def)
qed

lemma demo_contains:
  "contains demo_slider 280 180" "contains demo_slider 180 280"
  "dist_sq demo_slider 280 180 = 10000" "dist_sq demo_slider 180 280 = 10000"
proof -
  show d: "dist_sq demo_slider 280 180 = 10000" "dist_sq demo_slider 180 280 = 10000"
    by (simp_all add: dist_sq_def demo_slider_def CircularSlider_new_def i16_def)
  have "sqrt 10000 = 100" by (rule real_sqrt_unique) simp_all
  then show "contains demo_slider 280 180" "contains demo_slider 180 280"
    by (simp_all add: contains_dist_sq d) (simp_all add: demo_slider_def CircularSlider_new_def)
qed



lemma rounding_facts:
  assumes "rounding rnd"
  shows rnd_mono: "x \<le> y \<Longrightarrow> rnd x \<le> rnd y"
    and rnd_idem: "rnd (rnd x) = rnd x"
    and rnd_0: "rnd 0 = 0" and rnd_1: "rnd 1 = 1" and rnd_100: "rnd 100 = 100"
    and rnd_270: "rnd 270 = 270"
    and rnd_diff: "rnd a = a \<Longrightarrow> rnd b = b \<Longrightarrow> rnd (a - b) = 0 \<Longrightarrow> a = b"
  using assms unfolding rounding_def by blast+

lemma rnd_unit:
  assumes "rounding rnd" "0 \<le> t" "t \<le> 1"
  shows "0 \<le> rnd t" and "rnd t \<le> 1"
  using rnd_mono [OF assms(1, 2)] rnd_mono [OF assms(1, 3)]
  by (simp_all add: rnd_0 [OF assms(1)] rnd_1 [OF assms(1)])

lemma trunc_range:
  assumes "0 \<le> r" "r \<le> 270"
  shows "0 \<le> trunc r" and "trunc r \<le> 270"
  using assms by (simp_all add: trunc_def floor_le_iff)

lemma trunc_scaled:
  assumes "rounding rnd" "0 \<le> t" "t \<le> 1"
  shows "0 \<le> trunc (rnd (t * 270))" and "trunc (rnd (t * 270)) \<le> 270"
proof -
  have "0 \<le> t * 270" "t * 270 \<le> 270" using assms(2, 3) by simp_all
  then have "0 \<le> rnd (t * 270)" "rnd (t * 270) \<le> 270"
    using rnd_mono [OF assms(1), of 0 "t * 270"] rnd_mono [OF assms(1), of "t * 270" 270]
    by (simp_all add: rnd_0 [OF assms(1)] rnd_270 [OF assms(1)])
  then show "0 \<le> trunc (rnd (t * 270))" and "trunc (rnd (t * 270)) \<le> 270"
    by (rule trunc_range)+
qed

lemma sweep_relative:
  assumes "m_startAngle s = 135" "in_sweep s"
  shows "0 \<le> sint (relativeAngle s (m_currentAngle s))"
    and "sint (relativeAngle s (m_currentAngle s)) \<le> 270"
  using assms relativeAngle_sint [of s "m_currentAngle s"]
  by (simp_all add: in_sweep_def)

text \<open>The value computed from an angle of the sweep, for an ordered range of floats.\<close>

lemma scaled_value_bounds:
  assumes r: "rounding rnd" and t: "0 \<le> t" "t \<le> 1" and o: "lo \<le> hi" and f: "rnd lo = lo"
  shows "lo \<le> rnd (lo + rnd (rnd t * rnd (hi - lo)))"
    and "rnd (lo + rnd (rnd t * rnd (hi - lo))) \<le> rnd (lo + rnd (hi - lo))"
proof -
  define D where "D = rnd (hi - lo)"
  have D0: "0 \<le> D"
    using rnd_mono [OF r, of 0 "hi - lo"] o by (simp add: D_def rnd_0 [OF r])
  have u: "0 \<le> rnd t" "rnd t \<le> 1" using rnd_unit [OF r t] by blast+
  have "0 \<le> rnd t * D" using u(1) D0 by simp
  moreover have "rnd t * D \<le> 1 * D" using u(2) D0 by (intro mult_right_mono) simp_all
  ultimately have P: "0 \<le> rnd (rnd t * D)" "rnd (rnd t * D) \<le> D"
    using rnd_mono [OF r, of 0 "rnd t * D"] rnd_mono [OF r, of "rnd t * D" D]
    by (simp_all add: rnd_0 [OF r] D_def rnd_idem [OF r])
  have "rnd lo \<le> rnd (lo + rnd (rnd t * D))"
    using P(1) by (intro rnd_mono [OF r]) simp
  then show "lo \<le> rnd (lo + rnd (rnd t * rnd (hi - lo)))"
    by (simp add: f D_def)
  have "rnd (lo + rnd (rnd t * D)) \<le> rnd (lo + D)"
    using P(2) by (intro rnd_mono [OF r]) simp
  then show "rnd (lo + rnd (rnd t * rnd (hi - lo))) \<le> rnd (lo + rnd (hi - lo))"
    by (simp add: D_def)
qed

lemma calculateValueFromAngle_inv:
  assumes r: "rounding rnd" and st: "m_startAngle s = 135" and sw: "in_sweep s"
    and f: "rnd (m_minValue s) = m_minValue s" "rnd (m_maxValue s) = m_maxValue s"
  shows "slider_inv rnd (calculateValueFromAngle rnd s)"
proof -
  define t where "t = real_of_int (sint (relativeAngle s (m_currentAngle s))) / 270"
  have t: "0 \<le> t" "t \<le> 1"
    using sweep_relative [OF st sw] by (simp_all add: t_def del: of_int_sint)
  have v: "m_value (calculateValueFromAngle rnd s)
           = rnd (m_minValue s + rnd (rnd t * rnd (m_maxValue s - m_minValue s)))"
    by (simp add: calculateValueFromAngle_def Let_def t_def)
  have same: "m_minValue (calculateValueFromAngle rnd s) = m_minValue s"
    "m_maxValue (calculateValueFromAngle rnd s) = m_maxValue s"
    "m_startAngle (calculateValueFromAngle rnd s) = m_startAngle s"
    "m_currentAngle (calculateValueFromAngle rnd s) = m_currentAngle s"
    "m_targetValue (calculateValueFromAngle rnd s) = m_value (calculateValueFromAngle rnd s)"
    by (simp_all add: calculateValueFromAngle_def Let_def)
  have "value_bounded rnd (calculateValueFromAngle rnd s)" if "m_minValue s \<le> m_maxValue s"
    using scaled_value_bounds [OF r t that f(1)]
    by (simp add: value_bounded_def top_value_def same v)
  then show ?thesis
    using st sw f by (simp add: slider_inv_def same in_sweep_def)
qed

lemma setRange_inv:
  assumes "rounding rnd" "slider_inv rnd s" "rnd lo = lo" "rnd hi = hi"
  shows "slider_inv rnd (setRange rnd s lo hi)"
proof -
  have "m_startAngle s = 135" "in_sweep s" using assms(2) by (simp_all add: slider_inv_def)
  then show ?thesis
    unfolding setRange_def Let_def using assms(3, 4)
    by (intro calculateValueFromAngle_inv [OF assms(1)]) (simp_all add: in_sweep_def)
qed

lemma setValue_inv:
  assumes r: "rounding rnd" and inv: "slider_inv rnd s"
  shows "\<exists>s'. setValue rnd s v0 = Some s' \<and> slider_inv rnd s'
              \<and> m_minValue s' = m_minValue s \<and> m_maxValue s' = m_maxValue s
              \<and> (m_minValue s \<le> m_maxValue s
                   \<longrightarrow> m_minValue s \<le> m_value s' \<and> m_value s' \<le> m_maxValue s)"
proof -
  define lo hi where "lo = m_minValue s" and "hi = m_maxValue s"
  define v where "v = (if (if v0 < lo then lo else v0) > hi then hi else (if v0 < lo then lo else v0))"
  define D where "D = rnd (hi - lo)"
  have st: "m_startAngle s = 135" and sw: "in_sweep s" and eq: "m_value s = m_targetValue s"
    and f: "rnd lo = lo" "rnd hi = hi"
    and vb: "lo \<le> hi \<Longrightarrow> value_bounded rnd s"
    using inv by (simp_all add: slider_inv_def lo_def hi_def)
  have ord: "lo \<le> v \<and> v \<le> hi" if "lo \<le> hi" using that by (auto simp: v_def)
  show ?thesis
  proof (cases "m_value s = v")
    case True
    then have "setValue rnd s v0 = Some s"
      by (simp add: setValue_def v_def lo_def hi_def Let_def)
    then show ?thesis using inv ord True by (simp add: lo_def hi_def)
  next
    case False
    have ne: "lo \<noteq> hi"
    proof
      assume e: "lo = hi"
      then have "value_bounded rnd s" using vb by simp
      moreover have "top_value rnd s = lo"
        using e f by (simp add: top_value_def lo_def hi_def rnd_0 [OF r])
      ultimately have "m_value s = lo"
        using e by (simp add: value_bounded_def lo_def hi_def)
      moreover have "v = lo" using e by (auto simp: v_def)
      ultimately show False using False by simp
    qed
    have D: "D \<noteq> 0"
      using rnd_diff [OF r f(2) f(1)] ne by (auto simp: D_def)
    define t where "t = rnd (v - lo) / D"
    have t: "0 \<le> t \<and> t \<le> 1"
    proof (cases "lo < hi")
      case True
      then have o: "lo \<le> v" "v \<le> hi" using ord by simp_all
      have a0: "0 \<le> rnd (v - lo)"
        using rnd_mono [OF r, of 0 "v - lo"] o(1) by (simp add: rnd_0 [OF r])
      have aD: "rnd (v - lo) \<le> D"
        unfolding D_def using o(2) by (intro rnd_mono [OF r]) simp
      have "0 < D" using a0 aD D by simp
      then show ?thesis using a0 aD by (simp add: t_def)
    next
      case False
      with ne have "hi < lo" by simp
      then have "v = hi" by (auto simp: v_def)
      then show ?thesis using D by (simp add: t_def D_def)
    qed
    have u: "0 \<le> rnd t" "rnd t \<le> 1" using rnd_unit [OF r] t by blast+
    have tr: "0 \<le> trunc (rnd (rnd t * 270))" "trunc (rnd (rnd t * 270)) \<le> 270"
      using trunc_scaled [OF r u] by blast+
    have "setValue rnd s v0 =
            (if m_value s \<noteq> v
             then (if D = 0 then None
                   else Some (s\<lparr>m_value := v, m_targetValue := v,
                      m_currentAngle := normalizeAngle
                        (i16 (sint (m_startAngle s) + sint (i16 (trunc (rnd (rnd t * 270)))))),
                      m_hasChanged := True\<rparr>))
             else Some s)"
      unfolding setValue_def Let_def v_def t_def D_def lo_def hi_def by (rule refl)
    then have res: "setValue rnd s v0 =
            Some (s\<lparr>m_value := v, m_targetValue := v,
              m_currentAngle := normalizeAngle (i16 (135 + trunc (rnd (rnd t * 270)))),
              m_hasChanged := True\<rparr>)"
      using False D tr st by simp
    have "slider_inv rnd (s\<lparr>m_value := v, m_targetValue := v,
              m_currentAngle := normalizeAngle (i16 (135 + trunc (rnd (rnd t * 270)))),
              m_hasChanged := True\<rparr>)"
      using store_in_sweep [OF tr] tr st f ord
      by (auto simp: slider_inv_def in_sweep_def value_bounded_def top_value_def lo_def hi_def)
    then show ?thesis
      using res ord by (simp add: lo_def hi_def)
  qed
qed

lemma smooth_step_id: "m_value s = m_targetValue s \<Longrightarrow> smooth_step rnd s = s"
  by (simp add: smooth_step_def)

lemma touch_step_inv:
  assumes r: "rounding rnd" and inv: "slider_inv rnd s"
  shows "slider_inv rnd (touch_step rnd s tp)"
proof (cases "pressed tp \<and> contains s (tp_x tp) (tp_y tp)")
  case True
  define d where "d = (if \<not> m_dragging s then s\<lparr>m_dragging := True\<rparr> else s)"
  have st: "m_startAngle d = 135"
    and f: "rnd (m_minValue d) = m_minValue d" "rnd (m_maxValue d) = m_maxValue d"
    using inv by (simp_all add: slider_inv_def d_def)
  let ?a = "calculateAngleFromTouch d (tp_x tp) (tp_y tp)"
  have "in_sweep ?a" using st by (rule calculateAngleFromTouch_in_sweep)
  moreover have "m_startAngle ?a = 135" "rnd (m_minValue ?a) = m_minValue ?a"
    "rnd (m_maxValue ?a) = m_maxValue ?a"
    using st f by (simp_all add: calculateAngleFromTouch_def Let_def)
  ultimately have "slider_inv rnd (calculateValueFromAngle rnd ?a)"
    by (intro calculateValueFromAngle_inv [OF r])
  then have "slider_inv rnd ((calculateValueFromAngle rnd ?a)\<lparr>m_hasChanged := True\<rparr>)"
    by (auto simp: slider_inv_def in_sweep_def value_bounded_def top_value_def)
  then show ?thesis
    using True by (simp add: touch_step_def d_def)
next
  case False
  then show ?thesis
    using inv
    by (auto simp: touch_step_def slider_inv_def in_sweep_def value_bounded_def top_value_def)
qed

lemma update_slider_inv:
  assumes "rounding rnd" "slider_inv rnd s"
  shows "slider_inv rnd (update_slider rnd s tp)"
proof -
  have t: "slider_inv rnd (touch_step rnd s tp)" using assms by (rule touch_step_inv)
  then have "smooth_step rnd (touch_step rnd s tp) = touch_step rnd s tp"
    by (intro smooth_step_id) (simp add: slider_inv_def)
  then show ?thesis using t assms(2) by (simp add: update_slider_def)
qed

lemma apply_op_inv:
  assumes "rounding rnd" "slider_inv rnd s" "float_args rnd op"
  shows "\<exists>s'. apply_op rnd s op = Some s' \<and> slider_inv rnd s'"
proof (cases op)
  case (SetValue v)
  then show ?thesis using setValue_inv [OF assms(1, 2), of v] by auto
next
  case (SetRange lo hi)
  then show ?thesis using setRange_inv [OF assms(1, 2), of lo hi] assms(3) by simp
next
  case (Update tp)
  then show ?thesis using update_slider_inv [OF assms(1, 2), of tp] by simp
qed

lemma run_ops_inv:
  assumes "rounding rnd"
  shows "slider_inv rnd s \<Longrightarrow> \<forall>op \<in> set ops. float_args rnd op
         \<Longrightarrow> \<exists>s'. run_ops rnd s ops = Some s' \<and> slider_inv rnd s'"
proof (induction ops arbitrary: s)
  case Nil
  then show ?case by simp
next
  case (Cons op ops)
  then obtain s1 where s1: "apply_op rnd s op = Some s1" "slider_inv rnd s1"
    using apply_op_inv [OF assms, of s op] by auto
  with Cons show ?case by simp
qed

lemma run_ops_snoc:
  "run_ops rnd s (ops @ [op]) =
     (case run_ops rnd s ops of None \<Rightarrow> None | Some s' \<Rightarrow> apply_op rnd s' op)"
  by (induction ops arbitrary: s) (auto split: option.splits)

lemma CircularSlider_new_inv:
  assumes "rounding rnd"
  shows "slider_inv rnd (CircularSlider_new cx cy r ri)"
proof -
  have "rnd (rnd 100) = rnd 100" by (rule rnd_idem [OF assms])
  then have "0 \<le> rnd (rnd 100)" by (simp add: rnd_100 [OF assms])
  then show ?thesis
    by (simp add: slider_inv_def in_sweep_def value_bounded_def top_value_def
          CircularSlider_new_def rnd_0 [OF assms] rnd_100 [OF assms])
qed



lemma rnd32_demo:
  "rnd32 f0_7 = f0_7" "rnd32 f1_9 = f1_9"
  "rnd32 (f1_9 - f0_7) = f1_2" "rnd32 f1_2 = f1_2"
  "rnd32 (f0_7 + f1_2) = f1_9_above"
proof -
  show "rnd32 f0_7 = f0_7"
    unfolding f0_7_def
    by (rule rnd32_exact [of "- 1" _ 11744051]) (simp_all add: powr_neg_numeral powr_neg_one)
  show "rnd32 f1_9 = f1_9"
    unfolding f1_9_def
    by (rule rnd32_exact [of 0 _ 15938355]) (simp_all add: powr_neg_numeral)
  show "rnd32 f1_2 = f1_2"
    unfolding f1_2_def
    by (rule rnd32_exact [of 0 _ 10066330]) (simp_all add: powr_neg_numeral)
  have d: "f1_9 - f0_7 = 20132659 / 16777216" by (simp add: f0_7_def f1_9_def)
  have "rne (20132659 / 2) = 10066330" by (simp add: rne_def Let_def)
  then show "rnd32 (f1_9 - f0_7) = f1_2"
    unfolding d f1_2_def by (subst rnd32_eval [of 0]) (simp_all add: powr_neg_numeral)
  have t: "f0_7 + f1_2 = 31876711 / 16777216" by (simp add: f0_7_def f1_2_def)
  have "rne (31876711 / 2) = 15938356" by (simp add: rne_def Let_def)
  then show "rnd32 (f0_7 + f1_2) = f1_9_above"
    unfolding t f1_9_above_def by (subst rnd32_eval [of 0]) (simp_all add: powr_neg_numeral)
qed

lemma f1_2_neq_0: "f1_2 \<noteq> 0"
  by (simp add: f1_2_def)

lemma normalizeAngle_405: "normalizeAngle 405 = 45"
  by (simp add: normalizeAngle_def add360_loop.simps sub360_loop.simps i16_def)

lemma setRange_fields:
  "m_minValue (setRange rnd s lo hi) = lo" "m_maxValue (setRange rnd s lo hi) = hi"
  "m_startAngle (setRange rnd s lo hi) = m_startAngle s"
  "m_currentAngle (setRange rnd s lo hi) = m_currentAngle s"
  "m_value (setRange rnd s lo hi) =
     rnd (lo + rnd (rnd (real_of_int (sint (relativeAngle s (m_currentAngle s))) / 270)
                    * rnd (hi - lo)))"
  by (simp_all add: setRange_def calculateValueFromAngle_def Let_def relativeAngle_def)

lemma demo_set_run:
  "\<exists>s. run_ops rnd32 demo_slider demo_set_ops = Some s
     \<and> m_minValue s = f0_7 \<and> m_maxValue s = f1_9 \<and> m_value s = f1_9
     \<and> m_startAngle s = 135 \<and> m_currentAngle s = 45"
proof -
  define s1 where "s1 = setRange rnd32 demo_slider f0_7 f1_9"
  have s1: "m_minValue s1 = f0_7" "m_maxValue s1 = f1_9" "m_startAngle s1 = 135"
    "m_value s1 = f0_7"
    by (simp_all add: s1_def setRange_fields demo_slider_def CircularSlider_new_def
          relativeAngle_def i16_def rnd32_demo)
  have lt: "f0_7 < f1_9" by (simp add: f0_7_def f1_9_def)
  have "setValue rnd32 s1 f1_9 =
          Some (s1\<lparr>m_value := f1_9, m_targetValue := f1_9,
                    m_currentAngle := normalizeAngle 405, m_hasChanged := True\<rparr>)"
    using lt by (simp add: setValue_def Let_def s1 rnd32_demo f1_2_neq_0 trunc_def i16_def)
  then show ?thesis
    by (simp add: demo_set_ops_def s1_def [symmetric] s1 normalizeAngle_405)
qed

lemma demo_run:
  "\<exists>s. run_ops rnd32 demo_slider demo_ops = Some s
     \<and> m_minValue s = f0_7 \<and> m_maxValue s = f1_9 \<and> m_value s = f1_9_above"
proof -
  obtain s2 where s2: "run_ops rnd32 demo_slider demo_set_ops = Some s2"
    "m_startAngle s2 = 135" "m_currentAngle s2 = 45"
    using demo_set_run by blast
  have "sint (relativeAngle s2 (m_currentAngle s2)) = 270"
    by (simp add: relativeAngle_def s2 i16_def)
  then have "m_value (setRange rnd32 s2 f0_7 f1_9) = f1_9_above"
    by (simp add: setRange_fields rnd32_demo del: of_int_sint)
  then show ?thesis
    by (simp add: demo_ops_def run_ops_snoc s2 setRange_fields)
qed



end
